theory Spec2Isabelle
  imports Complex_Main
begin

section \<open>Field binding and type coercion of \<open>flag.go\<close>\<close>

text \<open>
  A shallow embedding of the flag binder of package \<open>cli\<close> (file \<open>flag.go\<close>):
  the expression resolver \<open>parseExpression\<close>, the coercer \<open>setWithProperType\<close> with its
  helpers, the binder operations \<open>newFlag\<close>, \<open>init\<close>, \<open>setDefault\<close>, \<open>set\<close>, and the prompting
  loop \<open>readPrompt\<close>.  Go strings are byte strings (\<open>string\<close>); mutation through
  \<open>reflect.Value\<close> is explicit state passing: every operation returns the error together
  with the updated value, since the source mutates before it fails.
\<close>

subsection \<open>Errors\<close>

text \<open>
  The source builds its errors with \<open>fmt.Errorf\<close> and \<open>errors.New\<close>; each constructor below
  stands for one message format of the file (the colour decoration of \<open>clr\<close> is dropped).
\<close>

datatype error =
    FieldNotWritable string          \<comment> \<open>\<open>field %s can not set\<close>\<close>
  | MalformedExpression              \<comment> \<open>\<open>unexpected end after %v\<close>\<close>
  | ExpressionEvaluationError string \<comment> \<open>an error of \<open>expr.Eval\<close>\<close>
  | TypeMismatch string string       \<comment> \<open>\<open>`%s` couldn't convert to a %s value\<close>: raw value, kind\<close>
  | ValueOverflow                    \<comment> \<open>\<open>value overflow\<close>\<close>
  | UnsupportedNesting string        \<comment> \<open>\<open>unsupported type %s as sub field\<close>\<close>
  | EmptyPair                        \<comment> \<open>\<open>empty key,val pair\<close>\<close>
  | UnsupportedType string           \<comment> \<open>\<open>unsupported type: %s\<close>\<close>
  | DecodeError string               \<comment> \<open>an error of a \<open>FlagParser\<close> or a \<open>Decoder\<close>\<close>
  | PromptIOError string             \<comment> \<open>an error of package \<open>prompt\<close>\<close>

subsection \<open>The number parsers of package \<open>strconv\<close>\<close>

text \<open>
  \<open>strconv.ParseUint(s, 10, 64)\<close>, \<open>strconv.ParseInt(s, 10, 64)\<close> and \<open>strconv.Atoi\<close> of the Go
  standard library, for base 10 and 64 bits (\<open>int\<close> is 64 bits wide).  The digit loop is
  the library's: a byte that is no decimal digit is a syntax error, a value that leaves
  the 64-bit range is a range error, whichever comes first.
\<close>

datatype numError = ErrSyntax | ErrRange

definition byte :: "char \<Rightarrow> nat" where
  "byte c = of_char c"

definition isDigit :: "char \<Rightarrow> bool" where
  "isDigit c \<longleftrightarrow> byte CHR ''0'' \<le> byte c \<and> byte c \<le> byte CHR ''9''"

definition digitVal :: "char \<Rightarrow> nat" where
  "digitVal c = byte c - byte CHR ''0''"

definition maxUint64 :: nat where
  "maxUint64 = 2 ^ 64 - 1"

definition cutoff64 :: nat where
  "cutoff64 = maxUint64 div 10 + 1"

fun parseUintLoop :: "nat \<Rightarrow> string \<Rightarrow> numError + nat" where
  "parseUintLoop n [] = Inr n"
| "parseUintLoop n (c # cs) =
     (if \<not> isDigit c then Inl ErrSyntax
      else if n \<ge> cutoff64 then Inl ErrRange
      else if n * 10 + digitVal c > maxUint64 then Inl ErrRange
      else parseUintLoop (n * 10 + digitVal c) cs)"

definition ParseUint :: "string \<Rightarrow> numError + nat" where
  "ParseUint s = (if s = [] then Inl ErrSyntax else parseUintLoop 0 s)"

definition ParseInt :: "string \<Rightarrow> numError + int" where
  "ParseInt s =
     (if s = [] then Inl ErrSyntax
      else
        let neg = (hd s = CHR ''-'');
            s1 = (if hd s = CHR ''+'' \<or> hd s = CHR ''-'' then tl s else s)
        in case ParseUint s1 of
             Inl ErrSyntax \<Rightarrow> Inl ErrSyntax
           | Inl ErrRange \<Rightarrow> Inl ErrRange
           | Inr un \<Rightarrow>
               if \<not> neg \<and> un \<ge> 2 ^ 63 then Inl ErrRange
               else if neg \<and> un > 2 ^ 63 then Inl ErrRange
               else Inr (if neg then - int un else int un))"

definition Atoi :: "string \<Rightarrow> numError + int" where
  "Atoi s = ParseInt s"

subsection \<open>Scalar conversions\<close>

definition getBool :: "string \<Rightarrow> error + bool" where
  "getBool s =
     (if s = ''true'' \<or> s = ''yes'' \<or> s = ''y'' \<or> s = '''' then Inr True
      else if s = ''false'' \<or> s = ''none'' \<or> s = ''no'' \<or> s = ''not'' \<or> s = ''n''
        then Inr False
      else case Atoi s of
             Inl _ \<Rightarrow> Inl (TypeMismatch s ''bool'')
           | Inr i \<Rightarrow> Inr (i \<noteq> 0))"

definition getInt :: "string \<Rightarrow> error + int" where
  "getInt s =
     (case ParseInt s of
        Inl _ \<Rightarrow> Inl (TypeMismatch s ''int'')
      | Inr i \<Rightarrow> Inr i)"

definition getUint :: "string \<Rightarrow> error + nat" where
  "getUint s =
     (case ParseUint s of
        Inl _ \<Rightarrow> Inl (TypeMismatch s ''uint'')
      | Inr i \<Rightarrow> Inr i)"


subsection \<open>Types and values seen through \<open>reflect\<close>\<close>

text \<open>
  \<open>rtype\<close> is a \<open>reflect.Type\<close> as far as the file looks at it: its kind, the element type
  of a slice, the key and element types of a map.  A kind the \<open>switch\<close> of
  \<open>setWithProperType\<close> does not list (struct, ptr, array, ...) is \<open>TOther\<close> with the name
  \<open>Kind.String()\<close> gives it.  \<open>int\<close> and \<open>uint\<close> are 64 bits wide, as \<open>minmaxIntCheck\<close>
  takes them.
\<close>

datatype rtype =
    TBool | TString
  | TInt | TInt8 | TInt16 | TInt32 | TInt64
  | TUint | TUint8 | TUint16 | TUint32 | TUint64
  | TFloat32 | TFloat64
  | TSlice rtype
  | TMap rtype rtype
  | TOther string

fun kindString :: "rtype \<Rightarrow> string" where
  "kindString TBool = ''bool''"
| "kindString TString = ''string''"
| "kindString TInt = ''int''"
| "kindString TInt8 = ''int8''"
| "kindString TInt16 = ''int16''"
| "kindString TInt32 = ''int32''"
| "kindString TInt64 = ''int64''"
| "kindString TUint = ''uint''"
| "kindString TUint8 = ''uint8''"
| "kindString TUint16 = ''uint16''"
| "kindString TUint32 = ''uint32''"
| "kindString TUint64 = ''uint64''"
| "kindString TFloat32 = ''float32''"
| "kindString TFloat64 = ''float64''"
| "kindString (TSlice _) = ''slice''"
| "kindString (TMap _ _) = ''map''"
| "kindString (TOther k) = k"

text \<open>
  A \<open>float64\<close>: a finite value, an infinity or not-a-number.  Comparisons with an
  infinity or with NaN are written out in \<open>minmaxFloatCheck\<close>.
\<close>

datatype float64 = Finite real | PosInf | NegInf | NaN

text \<open>
  A \<open>reflect.Value\<close>.  A slice is its elements (\<open>Len\<close> of them) and the cells of the
  backing array behind them (\<open>Cap - Len\<close> of them); a map is an association list with
  \<open>SetMapIndex\<close> as its only writer; the nil slice and the nil map are values of their
  own, since the source tests \<open>IsNil\<close>.  A value of any other kind is opaque.
\<close>

datatype val =
    VBool bool
  | VString string
  | VInt int
  | VUint nat
  | VFloat float64
  | VNilSlice
  | VSlice "val list" "val list"
  | VNilMap
  | VMap "(val \<times> val) list"
  | VOther string

fun zero :: "rtype \<Rightarrow> val" where
  "zero TBool = VBool False"
| "zero TString = VString []"
| "zero TInt = VInt 0"
| "zero TInt8 = VInt 0"
| "zero TInt16 = VInt 0"
| "zero TInt32 = VInt 0"
| "zero TInt64 = VInt 0"
| "zero TUint = VUint 0"
| "zero TUint8 = VUint 0"
| "zero TUint16 = VUint 0"
| "zero TUint32 = VUint 0"
| "zero TUint64 = VUint 0"
| "zero TFloat32 = VFloat (Finite 0)"
| "zero TFloat64 = VFloat (Finite 0)"
| "zero (TSlice _) = VNilSlice"
| "zero (TMap _ _) = VNilMap"
| "zero (TOther _) = VOther []"

fun IsNil :: "val \<Rightarrow> bool" where
  "IsNil VNilSlice = True"
| "IsNil VNilMap = True"
| "IsNil _ = False"

fun Len :: "val \<Rightarrow> nat" where
  "Len (VSlice es sp) = length es"
| "Len (VMap kvs) = length kvs"
| "Len _ = 0"

fun Cap :: "val \<Rightarrow> nat" where
  "Cap (VSlice es sp) = length es + length sp"
| "Cap _ = 0"

fun elems :: "val \<Rightarrow> val list" where
  "elems (VSlice es sp) = es"
| "elems _ = []"

definition MakeSlice :: "rtype \<Rightarrow> nat \<Rightarrow> nat \<Rightarrow> val" where
  "MakeSlice elemT len cap =
     VSlice (replicate len (zero elemT)) (replicate (cap - len) (zero elemT))"

fun SetLen :: "val \<Rightarrow> nat \<Rightarrow> val" where
  "SetLen (VSlice es sp) n = VSlice (take n (es @ sp)) (drop n (es @ sp))"
| "SetLen v n = v"

fun Index :: "val \<Rightarrow> nat \<Rightarrow> val" where
  "Index (VSlice es sp) i = es ! i"
| "Index v i = v"

fun SetIndex :: "val \<Rightarrow> nat \<Rightarrow> val \<Rightarrow> val" where
  "SetIndex (VSlice es sp) i x = VSlice (es[i := x]) sp"
| "SetIndex v i x = v"

text \<open>The copy loop \<open>for k := 0; k < index; k++ { slice.Index(k).Set(val.Index(k)) }\<close>.\<close>

function copyElems :: "nat \<Rightarrow> nat \<Rightarrow> val \<Rightarrow> val \<Rightarrow> val" where
  "copyElems k index src dst =
     (if k < index then copyElems (Suc k) index src (SetIndex dst k (Index src k)) else dst)"
  by pat_completeness auto
termination
  by (relation "measure (\<lambda>(k, index, src, dst). index - k)") auto

declare copyElems.simps [simp del]

fun SetMapIndexList :: "(val \<times> val) list \<Rightarrow> val \<Rightarrow> val \<Rightarrow> (val \<times> val) list" where
  "SetMapIndexList [] k v = [(k, v)]"
| "SetMapIndexList (p # ps) k v =
     (if fst p = k then (k, v) # ps else p # SetMapIndexList ps k v)"

fun SetMapIndex :: "val \<Rightarrow> val \<Rightarrow> val \<Rightarrow> val" where
  "SetMapIndex (VMap kvs) k v = VMap (SetMapIndexList kvs k v)"
| "SetMapIndex m k v = m"

fun MapIndex :: "val \<Rightarrow> val \<Rightarrow> val option" where
  "MapIndex (VMap kvs) k = map_of kvs k"
| "MapIndex m k = None"

definition MakeMap :: val where
  "MakeMap = VMap []"

subsection \<open>Collaborators outside the file\<close>

text \<open>
  What the file calls and does not define is a parameter: the process environment
  (\<open>os.Getenv\<close>, the empty string for an unset variable), the arithmetic evaluator
  \<open>expr.Eval\<close> with the two \<open>fmt.Sprintf\<close> renderings of its result (\<open>%d\<close> of \<open>int64(v)\<close>,
  \<open>%f\<close> of \<open>float64(v)\<close>), \<open>strconv.ParseFloat(s, 64)\<close>, the rounding of \<open>SetFloat\<close> on a
  \<open>float32\<close>, and the \<open>Decoder\<close> a type may implement.  A parser or decoder works on the
  address of the value: it returns its error and the value it leaves behind.
\<close>

type_synonym decoder = "val \<Rightarrow> string \<Rightarrow> error option \<times> val"

record extern =
  Getenv :: "string \<Rightarrow> string"
  Eval :: "string \<Rightarrow> error + float64"
  Sprintf_d :: "float64 \<Rightarrow> string"
  Sprintf_f :: "float64 \<Rightarrow> string"
  ParseFloat :: "string \<Rightarrow> numError + float64"
  toFloat32 :: "float64 \<Rightarrow> float64"
  DecoderOf :: "rtype \<Rightarrow> decoder option"

text \<open>
  \<open>tagProperty\<close> is declared in another file of the package; these are the fields
  \<open>flag.go\<close> reads.  \<open>parserCreator\<close> applied to the address of the value gives the
  \<open>FlagParser\<close> whose \<open>Parse\<close> is run.
\<close>

record tagProperty =
  shortNames :: "string list"
  longNames :: "string list"
  name :: string
  defaultValue :: string
  usage :: string
  required :: bool
  isPassword :: bool
  prompt :: string
  parserCreator :: "decoder option"

text \<open>
  The prompting package: each read takes the prompt and the state of the terminal and
  returns the line (or the answer) or an error, and the state it leaves.
\<close>

record 'io prompter =
  Password :: "string \<Rightarrow> 'io \<Rightarrow> (error + string) \<times> 'io"
  Ask :: "string \<Rightarrow> 'io \<Rightarrow> (error + bool) \<times> 'io"
  BasicDefault :: "string \<Rightarrow> string \<Rightarrow> 'io \<Rightarrow> (error + string) \<times> 'io"
  Basic :: "string \<Rightarrow> bool \<Rightarrow> 'io \<Rightarrow> (error + string) \<times> 'io"

text \<open>
  \<open>prompt.Password\<close> asks again as long as the line it reads is empty, so a read that
  succeeds returns a line that is not empty.  The properties of the password prompt are
  stated for a prompter that keeps this contract.
\<close>

definition passwordNonEmpty :: "'io prompter \<Rightarrow> bool" where
  "passwordNonEmpty P \<longleftrightarrow>
     (\<forall>p io data io1. Password P p io = (Inr data, io1) \<longrightarrow> data \<noteq> [])"

subsection \<open>Range checks\<close>

definition MinInt8 :: int where "MinInt8 = - (2 ^ 7)"
definition MaxInt8 :: int where "MaxInt8 = 2 ^ 7 - 1"
definition MinInt16 :: int where "MinInt16 = - (2 ^ 15)"
definition MaxInt16 :: int where "MaxInt16 = 2 ^ 15 - 1"
definition MinInt32 :: int where "MinInt32 = - (2 ^ 31)"
definition MaxInt32 :: int where "MaxInt32 = 2 ^ 31 - 1"
definition MinInt64 :: int where "MinInt64 = - (2 ^ 63)"
definition MaxInt64 :: int where "MaxInt64 = 2 ^ 63 - 1"
definition MaxUint8 :: nat where "MaxUint8 = 2 ^ 8 - 1"
definition MaxUint16 :: nat where "MaxUint16 = 2 ^ 16 - 1"
definition MaxUint32 :: nat where "MaxUint32 = 2 ^ 32 - 1"
definition MaxUint64 :: nat where "MaxUint64 = 2 ^ 64 - 1"
definition MaxFloat32 :: real where "MaxFloat32 = (2 ^ 24 - 1) * 2 ^ 104"
definition MaxFloat64 :: real where "MaxFloat64 = (2 ^ 53 - 1) * 2 ^ 971"

fun minmaxIntCheck :: "rtype \<Rightarrow> int \<Rightarrow> bool" where
  "minmaxIntCheck TInt v \<longleftrightarrow> v \<ge> MinInt64 \<and> v \<le> MaxInt64"
| "minmaxIntCheck TInt64 v \<longleftrightarrow> v \<ge> MinInt64 \<and> v \<le> MaxInt64"
| "minmaxIntCheck TInt8 v \<longleftrightarrow> v \<ge> MinInt8 \<and> v \<le> MaxInt8"
| "minmaxIntCheck TInt16 v \<longleftrightarrow> v \<ge> MinInt16 \<and> v \<le> MaxInt16"
| "minmaxIntCheck TInt32 v \<longleftrightarrow> v \<ge> MinInt32 \<and> v \<le> MaxInt32"
| "minmaxIntCheck _ v \<longleftrightarrow> True"

fun minmaxUintCheck :: "rtype \<Rightarrow> nat \<Rightarrow> bool" where
  "minmaxUintCheck TUint v \<longleftrightarrow> v \<le> MaxUint64"
| "minmaxUintCheck TUint64 v \<longleftrightarrow> v \<le> MaxUint64"
| "minmaxUintCheck TUint8 v \<longleftrightarrow> v \<le> MaxUint8"
| "minmaxUintCheck TUint16 v \<longleftrightarrow> v \<le> MaxUint16"
| "minmaxUintCheck TUint32 v \<longleftrightarrow> v \<le> MaxUint32"
| "minmaxUintCheck _ v \<longleftrightarrow> True"

text \<open>\<open>v >= -m && v <= m\<close> on a \<open>float64\<close>: false for NaN and for both infinities.\<close>

fun floatWithin :: "real \<Rightarrow> float64 \<Rightarrow> bool" where
  "floatWithin m (Finite r) \<longleftrightarrow> r \<ge> - m \<and> r \<le> m"
| "floatWithin m _ \<longleftrightarrow> False"

fun minmaxFloatCheck :: "rtype \<Rightarrow> float64 \<Rightarrow> bool" where
  "minmaxFloatCheck TFloat32 v \<longleftrightarrow> floatWithin MaxFloat32 v"
| "minmaxFloatCheck TFloat64 v \<longleftrightarrow> floatWithin MaxFloat64 v"
| "minmaxFloatCheck _ v \<longleftrightarrow> True"

definition getFloat :: "extern \<Rightarrow> string \<Rightarrow> error + float64" where
  "getFloat X s =
     (case ParseFloat X s of
        Inl _ \<Rightarrow> Inl (TypeMismatch s ''float'')
      | Inr f \<Rightarrow> Inr f)"

definition SetFloat :: "extern \<Rightarrow> rtype \<Rightarrow> float64 \<Rightarrow> val" where
  "SetFloat X t v = VFloat (if t = TFloat32 then toFloat32 X v else v)"

subsection \<open>Key and value of a map argument\<close>

text \<open>\<open>strings.Index(s, "=")\<close>: the index of the first \<open>=\<close>, or \<open>-1\<close>.\<close>

fun stringsIndex :: "string \<Rightarrow> char \<Rightarrow> int" where
  "stringsIndex [] c = - 1"
| "stringsIndex (b # bs) c =
     (if b = c then 0
      else if stringsIndex bs c = - 1 then - 1
      else stringsIndex bs c + 1)"

definition splitKeyVal :: "string \<Rightarrow> error + string \<times> string" where
  "splitKeyVal s =
     (if s = [] then Inl EmptyPair
      else
        let index = stringsIndex s CHR ''=''
        in if index = - 1 then Inr (s, [])
           else Inr (take (nat index) s, drop (nat (index + 1)) s))"

subsection \<open>The coercer\<close>

text \<open>
  \<open>setWithProperType(fl, typ, val, s, clr, isSubField)\<close>.  Of \<open>fl\<close> only the tag is read.
  \<open>val.CanInterface()\<close> and \<open>val.CanAddr()\<close> hold for every value the function meets (a
  settable field, an element of a slice, a value made by \<open>reflect.New\<close>).  The result is
  the error and the value as the call leaves it.
\<close>

fun setWithProperType ::
  "extern \<Rightarrow> tagProperty \<Rightarrow> rtype \<Rightarrow> val \<Rightarrow> string \<Rightarrow> bool \<Rightarrow> error option \<times> val"
where
  "setWithProperType X tg typ val s isSubField =
     (case parserCreator tg of
        Some parser \<Rightarrow> parser val s
      | None \<Rightarrow>
          if typ = TBool then
            (case getBool s of
               Inr v \<Rightarrow> (None, VBool v)
             | Inl e \<Rightarrow> (Some e, val))
          else if typ = TString then (None, VString s)
          else if typ \<in> set [TInt, TInt8, TInt16, TInt32, TInt64] then
            (case getInt s of
               Inr v \<Rightarrow>
                 if minmaxIntCheck typ v then (None, VInt v)
                 else (Some ValueOverflow, val)
             | Inl e \<Rightarrow> (Some e, val))
          else if typ \<in> set [TUint, TUint8, TUint16, TUint32, TUint64] then
            (case getUint s of
               Inr v \<Rightarrow>
                 if minmaxUintCheck typ v then (None, VUint v)
                 else (Some ValueOverflow, val)
             | Inl e \<Rightarrow> (Some e, val))
          else if typ \<in> set [TFloat32, TFloat64] then
            (case getFloat X s of
               Inr v \<Rightarrow>
                 if minmaxFloatCheck typ v then (None, SetFloat X typ v)
                 else (Some ValueOverflow, val)
             | Inl e \<Rightarrow> (Some e, val))
          else
            (case typ of
               TSlice sliceOf \<Rightarrow>
                 if isSubField then (Some (UnsupportedNesting (kindString typ)), val)
                 else
                   let val1 = (if IsNil val then MakeSlice sliceOf 0 4 else val);
                       index = Len val1;
                       sliceCap = Cap val1;
                       val2 =
                         (if index + 1 \<le> sliceCap then SetLen val1 (index + 1)
                          else copyElems 0 index val1
                                 (MakeSlice sliceOf (index + 1) (index + sliceCap div 2 + 1)))
                   in (case setWithProperType X tg sliceOf (Index val2 index) s True of
                         (e, el) \<Rightarrow> (e, SetIndex val2 index el))
             | TMap keyType valType \<Rightarrow>
                 if isSubField then (Some (UnsupportedNesting (kindString typ)), val)
                 else
                   (case splitKeyVal s of
                      Inl e \<Rightarrow> (Some e, val)
                    | Inr (keyString, valString) \<Rightarrow>
                        let val1 = (if IsNil val then MakeMap else val)
                        in (case setWithProperType X tg keyType (zero keyType) keyString True of
                              (Some e, k) \<Rightarrow> (Some e, val1)
                            | (None, k) \<Rightarrow>
                                (case setWithProperType X tg valType (zero valType) valString True of
                                   (Some e, v) \<Rightarrow> (Some e, val1)
                                 | (None, v) \<Rightarrow> (None, SetMapIndex val1 k v))))
             | _ \<Rightarrow>
                 (case DecoderOf X typ of
                    Some decoder \<Rightarrow> decoder val s
                  | None \<Rightarrow> (Some (UnsupportedType (kindString typ)), val))))"

declare setWithProperType.simps [simp del]

subsection \<open>The field binder\<close>

text \<open>
  \<open>field\<close> is the \<open>reflect.StructField\<close> (its name and type), \<open>fieldValue\<close> the
  \<open>reflect.Value\<close> of the field, which the binder writes.
\<close>

record flag =
  fieldName :: string
  fieldType :: rtype
  fieldValue :: val
  isAssigned :: bool
  isSet :: bool
  tag :: tagProperty
  actualFlagName :: string
  isNeedDelaySet :: bool
  lastValue :: string

definition isBoolean :: "flag \<Rightarrow> bool" where
  "isBoolean fl \<longleftrightarrow> fieldType fl = TBool"

definition isInteger :: "flag \<Rightarrow> bool" where
  "isInteger fl \<longleftrightarrow>
     fieldType fl \<in> set [TInt, TInt8, TInt16, TInt32, TInt64,
                          TUint, TUint8, TUint16, TUint32, TUint64]"

definition isFloat :: "flag \<Rightarrow> bool" where
  "isFloat fl \<longleftrightarrow> fieldType fl = TFloat32 \<or> fieldType fl = TFloat64"

definition isString :: "flag \<Rightarrow> bool" where
  "isString fl \<longleftrightarrow> fieldType fl = TString"

fun isSliceKind :: "rtype \<Rightarrow> bool" where
  "isSliceKind (TSlice _) = True"
| "isSliceKind _ = False"

fun isMapKind :: "rtype \<Rightarrow> bool" where
  "isMapKind (TMap _ _) = True"
| "isMapKind _ = False"

definition setDefault :: "extern \<Rightarrow> flag \<Rightarrow> string \<Rightarrow> error option \<times> flag" where
  "setDefault X fl s =
     (let fl1 = fl\<lparr>isAssigned := True\<rparr>
      in if isNeedDelaySet fl1 then (None, fl1\<lparr>lastValue := s\<rparr>)
         else (case setWithProperType X (tag fl1) (fieldType fl1) (fieldValue fl1) s False of
                 (e, v) \<Rightarrow> (e, fl1\<lparr>fieldValue := v\<rparr>)))"

definition flag_set :: "extern \<Rightarrow> flag \<Rightarrow> string \<Rightarrow> string \<Rightarrow> error option \<times> flag" where
  "flag_set X fl actualName s =
     (let fl1 = fl\<lparr>isSet := True, isAssigned := True, actualFlagName := actualName\<rparr>
      in if isNeedDelaySet fl1 then (None, fl1\<lparr>lastValue := s\<rparr>)
         else (case setWithProperType X (tag fl1) (fieldType fl1) (fieldValue fl1) s False of
                 (e, v) \<Rightarrow> (e, fl1\<lparr>fieldValue := v\<rparr>)))"

subsection \<open>The expression resolver\<close>

definition isWordByte :: "char \<Rightarrow> bool" where
  "isWordByte b \<longleftrightarrow>
     (byte b \<ge> byte CHR ''a'' \<and> byte b \<le> byte CHR ''z'') \<or>
     (byte b \<ge> byte CHR ''A'' \<and> byte b \<le> byte CHR ''Z'') \<or>
     (byte b \<ge> byte CHR ''0'' \<and> byte b \<le> byte CHR ''9'') \<or>
     b = CHR ''_''"

definition escapeByte :: char where
  "escapeByte = CHR ''$''"

text \<open>The closure \<open>writeEnv\<close>: the buffer \<open>expr\<close> after the write, or the error.\<close>

definition writeEnv :: "(string \<Rightarrow> string) \<Rightarrow> bool \<Rightarrow> string \<Rightarrow> string \<Rightarrow> error + string" where
  "writeEnv getenv isNumber envName expr =
     (if envName = [] then Inl MalformedExpression
      else
        let env = getenv envName;
            env1 = (if env = [] \<and> isNumber then ''0'' else env)
        in Inr (expr @ env1))"

text \<open>
  The loop \<open>for i, b := range src\<close> on the bytes from \<open>i\<close> on: \<open>b # rest\<close> is \<open>src[i:]\<close>, so
  \<open>i+1 == len(src)\<close> is \<open>rest = []\<close>.  The state is \<open>escaping\<close>, the buffer \<open>envvar\<close> and the
  buffer \<open>expr\<close>.
\<close>

fun parseExpressionLoop ::
  "(string \<Rightarrow> string) \<Rightarrow> bool \<Rightarrow> string \<Rightarrow> bool \<Rightarrow> string \<Rightarrow> string \<Rightarrow> error + string"
where
  "parseExpressionLoop getenv isNumber [] escaping envvar expr = Inr expr"
| "parseExpressionLoop getenv isNumber (b # rest) escaping envvar expr =
     (if b = escapeByte then
        (if escaping \<and> envvar = [] then
           parseExpressionLoop getenv isNumber rest False envvar (expr @ [b])
         else if rest = [] then Inl MalformedExpression
         else parseExpressionLoop getenv isNumber rest True [] expr)
      else if escaping then
        (if isWordByte b then
           (if rest = [] then
              (case writeEnv getenv isNumber (envvar @ [b]) expr of
                 Inl e \<Rightarrow> Inl e
               | Inr expr1 \<Rightarrow>
                   parseExpressionLoop getenv isNumber rest True (envvar @ [b]) expr1)
            else parseExpressionLoop getenv isNumber rest True (envvar @ [b]) expr)
         else
           (case writeEnv getenv isNumber envvar expr of
              Inl e \<Rightarrow> Inl e
            | Inr expr1 \<Rightarrow>
                parseExpressionLoop getenv isNumber rest False [] (expr1 @ [b])))
      else parseExpressionLoop getenv isNumber rest False envvar (expr @ [b]))"

definition parseExpression :: "(string \<Rightarrow> string) \<Rightarrow> string \<Rightarrow> bool \<Rightarrow> error + string" where
  "parseExpression getenv s isNumber = parseExpressionLoop getenv isNumber s False [] []"

subsection \<open>Construction\<close>

definition flag_init :: "extern \<Rightarrow> flag \<Rightarrow> bool \<Rightarrow> error option \<times> flag" where
  "flag_init X fl dontSetValue =
     (let isNumber = (isInteger fl \<or> isFloat fl)
      in case parseExpression (Getenv X) (defaultValue (tag fl)) isNumber of
           Inl e \<Rightarrow> (Some e, fl)
         | Inr dft \<Rightarrow>
             (case (if isNumber then
                      (case Eval X dft of
                         Inl e \<Rightarrow> Inl e
                       | Inr v \<Rightarrow>
                           Inr (if isInteger fl then Sprintf_d X v
                                else if isFloat fl then Sprintf_f X v
                                else dft))
                    else Inr dft) of
                Inl e \<Rightarrow> (Some e, fl)
              | Inr dft1 \<Rightarrow>
                  if \<not> dontSetValue \<and> defaultValue (tag fl) \<noteq> [] then
                    (if zero (fieldType fl) = fieldValue fl then setDefault X fl dft1
                     else (None, fl))
                  else (None, fl)))"

text \<open>
  \<open>newFlag\<close>: \<open>canSet\<close> is \<open>value.CanSet()\<close>.  The result is the pair \<open>(fl, err)\<close> of the
  source, \<open>fl\<close> being \<open>nil\<close> (\<open>None\<close>) for a field that cannot be set.
\<close>

definition newFlag ::
  "extern \<Rightarrow> string \<Rightarrow> rtype \<Rightarrow> val \<Rightarrow> bool \<Rightarrow> tagProperty \<Rightarrow> bool \<Rightarrow> flag option \<times> error option"
where
  "newFlag X fname ftype v canSet tg dontSetValue =
     (if \<not> canSet then (None, Some (FieldNotWritable fname))
      else
        let fl = \<lparr>fieldName = fname, fieldType = ftype, fieldValue = v,
                  isAssigned = False, isSet = False, tag = tg, actualFlagName = [],
                  isNeedDelaySet =
                    (parserCreator tg \<noteq> None \<or> (\<not> isSliceKind ftype \<and> \<not> isMapKind ftype)),
                  lastValue = []\<rparr>
        in case flag_init X fl dontSetValue of
             (e, fl1) \<Rightarrow> (Some fl1, e))"

subsection \<open>Prompting\<close>

record flagSet =
  err :: "error option"
  args :: "string list"
  flagMap :: "(string \<times> nat) list"
  flags :: "flag list"
  hasForce :: bool

text \<open>
  The body of the loop of \<open>readPrompt\<close> for a flag that is prompted for: the value of
  \<open>fs.err\<close> it leaves, the flag and the terminal.  The error of \<open>fl.set\<close> is dropped, as in
  the source.
\<close>

definition readPromptBody ::
  "extern \<Rightarrow> 'io prompter \<Rightarrow> flag \<Rightarrow> 'io \<Rightarrow> error option \<times> flag \<times> 'io"
where
  "readPromptBody X P fl io =
     (let prefix = prompt (tag fl) @ '': ''
      in if isPassword (tag fl) then
           (case Password P prefix io of
              (Inl e, io1) \<Rightarrow> (Some e, fl, io1)
            | (Inr data, io1) \<Rightarrow>
                (None, if data \<noteq> [] then snd (flag_set X fl data data) else fl, io1))
         else if isBoolean fl then
           (case Ask P prefix io of
              (Inl e, io1) \<Rightarrow> (Some e, fl, io1)
            | (Inr yes, io1) \<Rightarrow> (None, fl\<lparr>fieldValue := VBool yes\<rparr>, io1))
         else if defaultValue (tag fl) \<noteq> [] then
           (case BasicDefault P prefix (defaultValue (tag fl)) io of
              (Inl e, io1) \<Rightarrow> (Some e, fl, io1)
            | (Inr data, io1) \<Rightarrow> (None, snd (flag_set X fl data data), io1))
         else
           (case Basic P prefix (required (tag fl)) io of
              (Inl e, io1) \<Rightarrow> (Some e, fl, io1)
            | (Inr data, io1) \<Rightarrow> (None, snd (flag_set X fl data data), io1)))"

text \<open>
  The loop over \<open>fs.flags\<close>, with \<open>fs.err\<close> and the terminal threaded through: a flag that
  is assigned or has no prompt is passed over, and the loop returns at the first read
  that fails.
\<close>

fun readPromptLoop ::
  "extern \<Rightarrow> 'io prompter \<Rightarrow> flag list \<Rightarrow> error option \<Rightarrow> 'io \<Rightarrow> error option \<times> flag list \<times> 'io"
where
  "readPromptLoop X P [] e io = (e, [], io)"
| "readPromptLoop X P (fl # fls) e io =
     (if isAssigned fl \<or> prompt (tag fl) = [] then
        (case readPromptLoop X P fls e io of
           (e2, fls2, io2) \<Rightarrow> (e2, fl # fls2, io2))
      else
        (case readPromptBody X P fl io of
           (e1, fl1, io1) \<Rightarrow>
             if e1 \<noteq> None then (e1, fl1 # fls, io1)
             else
               (case readPromptLoop X P fls e1 io1 of
                  (e2, fls2, io2) \<Rightarrow> (e2, fl1 # fls2, io2))))"

definition readPrompt :: "extern \<Rightarrow> 'io prompter \<Rightarrow> flagSet \<Rightarrow> 'io \<Rightarrow> flagSet \<times> 'io" where
  "readPrompt X P fs io =
     (case readPromptLoop X P (flags fs) (err fs) io of
        (e, fls, io1) \<Rightarrow> (fs\<lparr>err := e, flags := fls\<rparr>, io1))"

subsection \<open>Callers and notions of the specification\<close>

text \<open>
  What a decimal numeral denotes, independently of the parsers: digits, with an optional
  sign for a signed numeral.
\<close>

fun decimal :: "nat \<Rightarrow> string \<Rightarrow> nat" where
  "decimal n [] = n"
| "decimal n (c # cs) = decimal (n * 10 + digitVal c) cs"

definition isNumeral :: "string \<Rightarrow> bool" where
  "isNumeral s \<longleftrightarrow> s \<noteq> [] \<and> list_all isDigit s"

definition uintDenoted :: "string \<Rightarrow> nat option" where
  "uintDenoted s = (if isNumeral s then Some (decimal 0 s) else None)"

definition intDenoted :: "string \<Rightarrow> int option" where
  "intDenoted s =
     (case s of
        [] \<Rightarrow> None
      | c # cs \<Rightarrow>
          if c = CHR ''-'' then map_option (\<lambda>n. - int n) (uintDenoted cs)
          else if c = CHR ''+'' then map_option int (uintDenoted cs)
          else map_option int (uintDenoted s))"

text \<open>The declared range of an integer kind, from its width.\<close>

definition isSignedKind :: "rtype \<Rightarrow> bool" where
  "isSignedKind K \<longleftrightarrow> K \<in> set [TInt, TInt8, TInt16, TInt32, TInt64]"

definition isUnsignedKind :: "rtype \<Rightarrow> bool" where
  "isUnsignedKind K \<longleftrightarrow> K \<in> set [TUint, TUint8, TUint16, TUint32, TUint64]"

fun bitSize :: "rtype \<Rightarrow> nat" where
  "bitSize TInt8 = 8"
| "bitSize TInt16 = 16"
| "bitSize TInt32 = 32"
| "bitSize TInt64 = 64"
| "bitSize TInt = 64"
| "bitSize TUint8 = 8"
| "bitSize TUint16 = 16"
| "bitSize TUint32 = 32"
| "bitSize TUint64 = 64"
| "bitSize TUint = 64"
| "bitSize _ = 0"

definition inDeclaredRange :: "rtype \<Rightarrow> int \<Rightarrow> bool" where
  "inDeclaredRange K v \<longleftrightarrow>
     (if isSignedKind K then - (2 ^ (bitSize K - 1)) \<le> v \<and> v < 2 ^ (bitSize K - 1)
      else 0 \<le> v \<and> v < 2 ^ bitSize K)"

definition fitsInt64 :: "int \<Rightarrow> bool" where
  "fitsInt64 v \<longleftrightarrow> - (2 ^ 63) \<le> v \<and> v < 2 ^ 63"

definition fitsUint64 :: "nat \<Rightarrow> bool" where
  "fitsUint64 n \<longleftrightarrow> n < 2 ^ 64"

text \<open>
  A caller that applies the occurrences of one flag in order, each with the spelling of
  the flag and the raw value, and stops at the first error.
\<close>

fun setAll :: "extern \<Rightarrow> flag \<Rightarrow> (string \<times> string) list \<Rightarrow> error option \<times> flag" where
  "setAll X fl [] = (None, fl)"
| "setAll X fl ((actualName, s) # cs) =
     (case flag_set X fl actualName s of
        (None, fl1) \<Rightarrow> setAll X fl1 cs
      | (Some e, fl1) \<Rightarrow> (Some e, fl1))"

text \<open>
  Modelled from the spec: the deferred coercion of a field with delayed coercion, which
  is not in \<open>flag.go\<close> (the file only stores \<open>lastValue\<close>).  The specification has it
  perform \<open>coerce\<close> once, on the last raw value supplied, before the value is consumed.
\<close>

definition delayedCoerce :: "extern \<Rightarrow> flag \<Rightarrow> error option \<times> flag" where
  "delayedCoerce X fl =
     (if isNeedDelaySet fl then
        (case setWithProperType X (tag fl) (fieldType fl) (fieldValue fl) (lastValue fl) False of
           (e, v) \<Rightarrow> (e, fl\<lparr>fieldValue := v\<rparr>))
      else (None, fl))"

text \<open>The invariant of a binder: a flag that is set is assigned.\<close>

definition binderInv :: "flag \<Rightarrow> bool" where
  "binderInv fl \<longleftrightarrow> (isSet fl \<longrightarrow> isAssigned fl)"

text \<open>
  The shape of the value of a slice field and of a map field, the entries of a map, and
  the cell of the backing array that the next element of a slice is coerced into: the
  cell behind the last element when the capacity suffices, a fresh zero value otherwise.
\<close>

fun isSliceVal :: "val \<Rightarrow> bool" where
  "isSliceVal VNilSlice = True"
| "isSliceVal (VSlice es sp) = True"
| "isSliceVal _ = False"

fun isMapVal :: "val \<Rightarrow> bool" where
  "isMapVal VNilMap = True"
| "isMapVal (VMap kvs) = True"
| "isMapVal _ = False"

fun entries :: "val \<Rightarrow> (val \<times> val) list" where
  "entries (VMap kvs) = kvs"
| "entries _ = []"

fun nextCell :: "rtype \<Rightarrow> val \<Rightarrow> val" where
  "nextCell t (VSlice es (c # sp)) = c"
| "nextCell t _ = zero t"

text \<open>
  A sequence field and a map field in the sense of the coercer's dispatch, where a parser
  creator comes before every kind: a field without parser creator whose type is a slice
  (a map), bound as \<open>newFlag\<close> binds it (without delay) to a value of that shape.
\<close>

definition isSequenceField :: "rtype \<Rightarrow> flag \<Rightarrow> bool" where
  "isSequenceField t fl \<longleftrightarrow>
     fieldType fl = TSlice t \<and> parserCreator (tag fl) = None \<and> \<not> isNeedDelaySet fl \<and>
     isSliceVal (fieldValue fl)"

definition isMapField :: "rtype \<Rightarrow> rtype \<Rightarrow> flag \<Rightarrow> bool" where
  "isMapField kt vt fl \<longleftrightarrow>
     fieldType fl = TMap kt vt \<and> parserCreator (tag fl) = None \<and> \<not> isNeedDelaySet fl \<and>
     isMapVal (fieldValue fl)"

text \<open>
  What the specification substitutes for a reference to the variable \<open>envName\<close>: its value
  in the environment, or \<open>0\<close> for an empty value when the target is numeric.
\<close>

definition substitute :: "(string \<Rightarrow> string) \<Rightarrow> bool \<Rightarrow> string \<Rightarrow> string" where
  "substitute getenv isNumber envName =
     (if getenv envName = [] \<and> isNumber then ''0'' else getenv envName)"

text \<open>No flag of a binder goes back from true to false, and the invariant is kept.\<close>

definition notReset :: "flag \<Rightarrow> flag \<Rightarrow> bool" where
  "notReset fl fl1 \<longleftrightarrow>
     (isAssigned fl \<longrightarrow> isAssigned fl1) \<and> (isSet fl \<longrightarrow> isSet fl1) \<and>
     (binderInv fl \<longrightarrow> binderInv fl1)"

subsection \<open>Example collaborators\<close>

definition exampleEnv :: "string \<Rightarrow> string" where
  "exampleEnv n =
     (if n = ''HOME'' then ''/x''
      else if n = ''A'' then ''x''
      else if n = ''B'' then ''y''
      else [])"

definition exampleExtern :: extern where
  "exampleExtern =
     \<lparr>Getenv = exampleEnv,
      Eval = (\<lambda>s. Inl (ExpressionEvaluationError s)),
      Sprintf_d = (\<lambda>v. []),
      Sprintf_f = (\<lambda>v. []),
      ParseFloat = (\<lambda>s. Inl ErrSyntax),
      toFloat32 = (\<lambda>v. v),
      DecoderOf = (\<lambda>t. None)\<rparr>"

definition exampleTag :: tagProperty where
  "exampleTag =
     \<lparr>shortNames = [''-f''], longNames = [], name = [], defaultValue = [], usage = [],
      required = False, isPassword = False, prompt = [], parserCreator = None\<rparr>"

definition exampleFlag :: "rtype \<Rightarrow> val \<Rightarrow> tagProperty \<Rightarrow> flag" where
  "exampleFlag t v tg =
     \<lparr>fieldName = ''F'', fieldType = t, fieldValue = v, isAssigned = False, isSet = False,
      tag = tg, actualFlagName = [],
      isNeedDelaySet = (parserCreator tg \<noteq> None \<or> (\<not> isSliceKind t \<and> \<not> isMapKind t)),
      lastValue = []\<rparr>"

definition examplePasswordTag :: tagProperty where
  "examplePasswordTag = exampleTag\<lparr>isPassword := True, prompt := ''password''\<rparr>"

definition examplePromptTag :: tagProperty where
  "examplePromptTag = exampleTag\<lparr>prompt := ''verbose''\<rparr>"

definition exampleDefaultTag :: tagProperty where
  "exampleDefaultTag = exampleTag\<lparr>prompt := ''name'', defaultValue := ''guest''\<rparr>"

definition exampleFlagSet :: "flag list \<Rightarrow> flagSet" where
  "exampleFlagSet fls = \<lparr>err = None, args = [], flagMap = [], flags = fls, hasForce = False\<rparr>"

text \<open>
  A terminal whose state is the list of the lines still to be read, with the reads of
  package \<open>prompt\<close>: \<open>Password\<close> and \<open>Ask\<close> ask again on an empty line, and so does \<open>Basic\<close>
  for a required value; \<open>Ask\<close> takes \<open>y\<close> and \<open>yes\<close> in any case of the letters for yes and
  every other line for no; \<open>BasicDefault\<close> returns the default for an empty line.
\<close>

fun readNonEmptyLine :: "string list \<Rightarrow> (error + string) \<times> string list" where
  "readNonEmptyLine [] = (Inl (PromptIOError ''EOF''), [])"
| "readNonEmptyLine (l # ls) = (if l = [] then readNonEmptyLine ls else (Inr l, ls))"

fun readLine :: "string list \<Rightarrow> (error + string) \<times> string list" where
  "readLine [] = (Inl (PromptIOError ''EOF''), [])"
| "readLine (l # ls) = (Inr l, ls)"

fun lowerYes :: "char \<Rightarrow> char" where
  "lowerYes c =
     (if c = CHR ''Y'' then CHR ''y''
      else if c = CHR ''E'' then CHR ''e''
      else if c = CHR ''S'' then CHR ''s''
      else c)"

definition readYesNo :: "string list \<Rightarrow> (error + bool) \<times> string list" where
  "readYesNo io =
     (case readNonEmptyLine io of
        (Inl e, io1) \<Rightarrow> (Inl e, io1)
      | (Inr l, io1) \<Rightarrow> (Inr (map lowerYes l = ''y'' \<or> map lowerYes l = ''yes''), io1))"

definition readLineDefault :: "string \<Rightarrow> string list \<Rightarrow> (error + string) \<times> string list" where
  "readLineDefault d io =
     (case readLine io of
        (Inl e, io1) \<Rightarrow> (Inl e, io1)
      | (Inr l, io1) \<Rightarrow> (Inr (if l = [] then d else l), io1))"

definition examplePrompter :: "string list prompter" where
  "examplePrompter =
     \<lparr>Password = (\<lambda>p. readNonEmptyLine),
      Ask = (\<lambda>p. readYesNo),
      BasicDefault = (\<lambda>p d. readLineDefault d),
      Basic = (\<lambda>p r. if r then readNonEmptyLine else readLine)\<rparr>"

section \<open>Properties\<close>

subsection \<open>The number parsers compute what the numeral denotes\<close>

lemma decimal_ge: "n \<le> decimal n s"
proof (induction s arbitrary: n)
  case Nil
  show ?case by simp
next
  case (Cons c cs)
  have "n \<le> n * 10 + digitVal c" by simp
  also have "\<dots> \<le> decimal (n * 10 + digitVal c) cs" by (rule Cons.IH)
  finally show ?case by simp
qed

lemma cutoff64_times: "cutoff64 \<le> n \<Longrightarrow> maxUint64 < n * 10 + d"
  by (simp add: cutoff64_def maxUint64_def)

lemma parseUintLoop_digits:
  "list_all isDigit s \<Longrightarrow> n \<le> maxUint64 \<Longrightarrow>
   parseUintLoop n s = (if decimal n s \<le> maxUint64 then Inr (decimal n s) else Inl ErrRange)"
proof (induction s arbitrary: n)
  case Nil
  then show ?case by simp
next
  case (Cons c cs)
  let ?m = "n * 10 + digitVal c"
  from Cons.prems have d: "isDigit c" and ds: "list_all isDigit cs" by simp_all
  show ?case
  proof (cases "cutoff64 \<le> n \<or> maxUint64 < ?m")
    case True
    then have "maxUint64 < ?m" using cutoff64_times by blast
    then have "maxUint64 < decimal ?m cs" using decimal_ge [of ?m cs] by linarith
    with True d show ?thesis by auto
  next
    case False
    then have "?m \<le> maxUint64" by simp
    from Cons.IH [OF ds this] d False show ?thesis by auto
  qed
qed

lemma parseUintLoop_nondigit:
  "\<not> list_all isDigit s \<Longrightarrow> \<exists>e. parseUintLoop n s = Inl e"
  by (induction s arbitrary: n) auto

lemma ParseUint_iff:
  "ParseUint s = Inr v \<longleftrightarrow> uintDenoted s = Some v \<and> v \<le> maxUint64"
proof (cases "list_all isDigit s")
  case True
  then show ?thesis
    by (auto simp: ParseUint_def uintDenoted_def isNumeral_def parseUintLoop_digits)
next
  case False
  then show ?thesis
    using parseUintLoop_nondigit [of s 0]
    by (auto simp: ParseUint_def uintDenoted_def isNumeral_def)
qed

lemma ParseInt_iff:
  "ParseInt s = Inr v \<longleftrightarrow> intDenoted s = Some v \<and> - (2 ^ 63) \<le> v \<and> v < 2 ^ 63"
proof (cases s)
  case Nil
  then show ?thesis by (simp add: ParseInt_def intDenoted_def)
next
  case (Cons c cs)
  define s1 where "s1 = (if c = CHR ''+'' \<or> c = CHR ''-'' then cs else s)"
  show ?thesis
  proof (cases "ParseUint s1")
    case (Inl e)
    then have big: "\<And>u. uintDenoted s1 = Some u \<Longrightarrow> maxUint64 < u"
      using ParseUint_iff [of s1] by (metis Inl_Inr_False not_le_imp_less)
    have "ParseInt s = Inl e"
      using Inl Cons unfolding s1_def
      by (cases e) (auto simp: ParseInt_def Let_def split: if_splits)
    moreover have "\<not> (intDenoted s = Some v \<and> - (2 ^ 63) \<le> v \<and> v < 2 ^ 63)"
      using big Cons by (auto simp: intDenoted_def s1_def maxUint64_def split: if_splits)
    ultimately show ?thesis by simp
  next
    case (Inr un)
    then have un: "uintDenoted s1 = Some un" and "un \<le> maxUint64"
      using ParseUint_iff [of s1 un] by simp_all
    show ?thesis
      using Inr un Cons unfolding s1_def
      by (auto simp: ParseInt_def intDenoted_def Let_def split: if_splits)
  qed
qed

lemma getInt_denoted:
  "getInt s =
     (case intDenoted s of
        Some v \<Rightarrow> if fitsInt64 v then Inr v else Inl (TypeMismatch s ''int'')
      | None \<Rightarrow> Inl (TypeMismatch s ''int''))"
proof (cases "ParseInt s")
  case (Inl e)
  then have "ParseInt s \<noteq> Inr v" for v by simp
  then have "\<not> (intDenoted s = Some v \<and> fitsInt64 v)" for v
    using ParseInt_iff [of s v] by (simp add: fitsInt64_def)
  with Inl show ?thesis by (auto simp: getInt_def split: option.splits)
next
  case (Inr v)
  then have "intDenoted s = Some v \<and> fitsInt64 v"
    using ParseInt_iff [of s v] by (simp add: fitsInt64_def)
  with Inr show ?thesis by (simp add: getInt_def)
qed

lemma getUint_denoted:
  "getUint s =
     (case uintDenoted s of
        Some n \<Rightarrow> if fitsUint64 n then Inr n else Inl (TypeMismatch s ''uint'')
      | None \<Rightarrow> Inl (TypeMismatch s ''uint''))"
proof (cases "ParseUint s")
  case (Inl e)
  then have "ParseUint s \<noteq> Inr n" for n by simp
  then have "\<not> (uintDenoted s = Some n \<and> fitsUint64 n)" for n
    using ParseUint_iff [of s n] by (auto simp: fitsUint64_def maxUint64_def)
  with Inl show ?thesis by (auto simp: getUint_def split: option.splits)
next
  case (Inr n)
  then have "uintDenoted s = Some n \<and> fitsUint64 n"
    using ParseUint_iff [of s n] by (auto simp: fitsUint64_def maxUint64_def)
  with Inr show ?thesis by (simp add: getUint_def)
qed

lemma minmaxIntCheck_range:
  "isSignedKind K \<Longrightarrow> fitsInt64 v \<Longrightarrow> minmaxIntCheck K v = inDeclaredRange K v"
  by (auto simp: isSignedKind_def fitsInt64_def inDeclaredRange_def
      MinInt8_def MaxInt8_def MinInt16_def MaxInt16_def MinInt32_def MaxInt32_def
      MinInt64_def MaxInt64_def)

lemma minmaxUintCheck_range:
  "isUnsignedKind K \<Longrightarrow> fitsUint64 n \<Longrightarrow> minmaxUintCheck K n = inDeclaredRange K (int n)"
  by (auto simp: isUnsignedKind_def isSignedKind_def fitsUint64_def inDeclaredRange_def
      MaxUint8_def MaxUint16_def MaxUint32_def MaxUint64_def)

subsection \<open>The scalar branches of the coercer\<close>

lemma setWithProperType_parser:
  "parserCreator tg = Some p \<Longrightarrow> setWithProperType X tg t val s sub = p val s"
  by (simp add: setWithProperType.simps)

lemma setWithProperType_bool:
  "parserCreator tg = None \<Longrightarrow>
   setWithProperType X tg TBool val s sub =
     (case getBool s of Inr v \<Rightarrow> (None, VBool v) | Inl e \<Rightarrow> (Some e, val))"
  by (simp add: setWithProperType.simps)

lemma setWithProperType_string:
  "parserCreator tg = None \<Longrightarrow> setWithProperType X tg TString val s sub = (None, VString s)"
  by (simp add: setWithProperType.simps)

lemma setWithProperType_int:
  "parserCreator tg = None \<Longrightarrow> isSignedKind K \<Longrightarrow>
   setWithProperType X tg K val s sub =
     (case getInt s of
        Inr v \<Rightarrow> if minmaxIntCheck K v then (None, VInt v) else (Some ValueOverflow, val)
      | Inl e \<Rightarrow> (Some e, val))"
  by (auto simp: setWithProperType.simps isSignedKind_def)

lemma setWithProperType_uint:
  "parserCreator tg = None \<Longrightarrow> isUnsignedKind K \<Longrightarrow>
   setWithProperType X tg K val s sub =
     (case getUint s of
        Inr v \<Rightarrow> if minmaxUintCheck K v then (None, VUint v) else (Some ValueOverflow, val)
      | Inl e \<Rightarrow> (Some e, val))"
  by (auto simp: setWithProperType.simps isUnsignedKind_def)

subsection \<open>Integer overflow (claim C1)\<close>

text \<open>
  Claim C1, as amended.  For an integer or unsigned-integer kind \<open>K\<close> of a field with no
  custom parser, a raw string that the 64-bit base-10 parse accepts (a signed numeral
  whose value fits \<open>int64\<close>; for an unsigned kind a numeral without sign whose value fits
  \<open>uint64\<close>) and whose value lies outside the declared range of \<open>K\<close> is refused with
  \<open>ValueOverflow\<close>, and the value of the field is left as it was.  A numeral whose value
  does not fit 64 bits, and for an unsigned kind a string that is no unsigned numeral,
  is refused with \<open>TypeMismatch\<close>.  The two errors are distinct.
\<close>

theorem coerce_overflow_within_64_bits:
  assumes "parserCreator tg = None"
  shows "(isSignedKind K \<and> intDenoted s = Some v \<and> fitsInt64 v \<and> \<not> inDeclaredRange K v
            \<longrightarrow> setWithProperType X tg K val s sub = (Some ValueOverflow, val))
       \<and> (isUnsignedKind K \<and> uintDenoted s = Some n \<and> fitsUint64 n \<and> \<not> inDeclaredRange K (int n)
            \<longrightarrow> setWithProperType X tg K val s sub = (Some ValueOverflow, val))
       \<and> (isSignedKind K \<and> intDenoted s = Some v \<and> \<not> fitsInt64 v
            \<longrightarrow> setWithProperType X tg K val s sub = (Some (TypeMismatch s ''int''), val))
       \<and> (isUnsignedKind K \<and> (uintDenoted s = None \<or> uintDenoted s = Some n \<and> \<not> fitsUint64 n)
            \<longrightarrow> setWithProperType X tg K val s sub = (Some (TypeMismatch s ''uint''), val))
       \<and> ValueOverflow \<noteq> TypeMismatch a b"
proof -
  have signed: "setWithProperType X tg K val s sub = (Some ValueOverflow, val)"
    if "isSignedKind K" "intDenoted s = Some v" "fitsInt64 v" "\<not> inDeclaredRange K v"
    using that assms minmaxIntCheck_range [of K v]
    by (simp add: setWithProperType_int getInt_denoted)
  have unsigned: "setWithProperType X tg K val s sub = (Some ValueOverflow, val)"
    if "isUnsignedKind K" "uintDenoted s = Some n" "fitsUint64 n" "\<not> inDeclaredRange K (int n)"
    using that assms minmaxUintCheck_range [of K n]
    by (simp add: setWithProperType_uint getUint_denoted)
  have beyond: "setWithProperType X tg K val s sub = (Some (TypeMismatch s ''int''), val)"
    if "isSignedKind K" "intDenoted s = Some v" "\<not> fitsInt64 v"
    using that assms by (simp add: setWithProperType_int getInt_denoted)
  have ubeyond: "setWithProperType X tg K val s sub = (Some (TypeMismatch s ''uint''), val)"
    if "isUnsignedKind K" "uintDenoted s = None \<or> uintDenoted s = Some n \<and> \<not> fitsUint64 n"
    using that assms by (auto simp: setWithProperType_uint getUint_denoted)
  show ?thesis using signed unsigned beyond ubeyond by simp
qed

lemmas denote_simps = intDenoted_def uintDenoted_def isNumeral_def isDigit_def digitVal_def byte_def
  fitsInt64_def fitsUint64_def inDeclaredRange_def isSignedKind_def isUnsignedKind_def

theorem coerce_overflow_within_64_bits_witness:
  "setWithProperType exampleExtern exampleTag TUint8 (VUint 7) ''300'' False = (Some ValueOverflow, VUint 7)
   \<and> setWithProperType exampleExtern exampleTag TInt8 (VInt 7) ''-129'' False = (Some ValueOverflow, VInt 7)
   \<and> setWithProperType exampleExtern exampleTag TInt64 (VInt 7) ''9223372036854775808'' False
        = (Some (TypeMismatch ''9223372036854775808'' ''int''), VInt 7)
   \<and> setWithProperType exampleExtern exampleTag TUint8 (VUint 7) ''-1'' False
        = (Some (TypeMismatch ''-1'' ''uint''), VUint 7)"
proof -
  have tg: "parserCreator exampleTag = None" by (simp add: exampleTag_def)
  have a: "isUnsignedKind TUint8 \<and> uintDenoted ''300'' = Some 300 \<and> fitsUint64 300
           \<and> \<not> inDeclaredRange TUint8 (int 300)"
    by (simp add: denote_simps)
  have b: "isSignedKind TInt8 \<and> intDenoted ''-129'' = Some (- 129) \<and> fitsInt64 (- 129)
           \<and> \<not> inDeclaredRange TInt8 (- 129)"
    by (simp add: denote_simps)
  have c: "isSignedKind TInt64 \<and> intDenoted ''9223372036854775808'' = Some 9223372036854775808
           \<and> \<not> fitsInt64 9223372036854775808"
    by (simp add: denote_simps)
  have d: "isUnsignedKind TUint8 \<and> uintDenoted ''-1'' = None"
    by (simp add: denote_simps)
  from a coerce_overflow_within_64_bits [OF tg, where K = TUint8 and s = "''300''" and X = exampleExtern and val = "VUint 7" and sub = False and n = 300]
  have 1: "setWithProperType exampleExtern exampleTag TUint8 (VUint 7) ''300'' False = (Some ValueOverflow, VUint 7)"
    by blast
  from b coerce_overflow_within_64_bits [OF tg, where K = TInt8 and s = "''-129''" and X = exampleExtern and val = "VInt 7" and sub = False and v = "- 129"]
  have 2: "setWithProperType exampleExtern exampleTag TInt8 (VInt 7) ''-129'' False = (Some ValueOverflow, VInt 7)"
    by blast
  from c coerce_overflow_within_64_bits [OF tg, where K = TInt64 and s = "''9223372036854775808''" and X = exampleExtern and val = "VInt 7" and sub = False and v = 9223372036854775808]
  have 3: "setWithProperType exampleExtern exampleTag TInt64 (VInt 7) ''9223372036854775808'' False
        = (Some (TypeMismatch ''9223372036854775808'' ''int''), VInt 7)"
    by blast
  from d coerce_overflow_within_64_bits [OF tg, where K = TUint8 and s = "''-1''" and X = exampleExtern and val = "VUint 7" and sub = False]
  have 4: "setWithProperType exampleExtern exampleTag TUint8 (VUint 7) ''-1'' False
        = (Some (TypeMismatch ''-1'' ''uint''), VUint 7)"
    by blast
  from 1 2 3 4 show ?thesis by simp
qed

lemmas coerce_eval = setWithProperType.simps exampleExtern_def exampleTag_def getInt_def getUint_def
  ParseInt_def ParseUint_def isDigit_def digitVal_def byte_def cutoff64_def maxUint64_def

text \<open>
  The claim as stated fails: \<open>99999999999999999999\<close> denotes a value outside the range of
  an 8-bit signed kind, and \<open>-1\<close> one outside the range of an 8-bit unsigned kind; both
  are refused with \<open>TypeMismatch\<close>, since \<open>getInt\<close> and \<open>getUint\<close> report every failure of the
  64-bit parse as a conversion failure.
\<close>

theorem coerce_overflow_beyond_64_bits_counterexample:
  "intDenoted ''99999999999999999999'' = Some 99999999999999999999
   \<and> \<not> inDeclaredRange TInt8 99999999999999999999
   \<and> setWithProperType exampleExtern exampleTag TInt8 (VInt 0) ''99999999999999999999'' False
       = (Some (TypeMismatch ''99999999999999999999'' ''int''), VInt 0)
   \<and> intDenoted ''-1'' = Some (- 1)
   \<and> \<not> inDeclaredRange TUint8 (- 1)
   \<and> setWithProperType exampleExtern exampleTag TUint8 (VUint 0) ''-1'' False
       = (Some (TypeMismatch ''-1'' ''uint''), VUint 0)"
  by (simp add: denote_simps coerce_eval)

subsection \<open>Boolean coercion (claim C6)\<close>

text \<open>
  Claim C6.  \<open>getBool\<close> returns true for exactly the strings \<open>true\<close>, \<open>yes\<close>, \<open>y\<close> and the
  empty string, false for \<open>false\<close>, \<open>none\<close>, \<open>no\<close>, \<open>not\<close>, \<open>n\<close> (compared byte by byte, so
  case-sensitively); any other string is parsed as an integer: a numeral that fits 64
  bits gives true when its value is not zero and false when it is zero, and every other
  string gives the error \<open>TypeMismatch\<close>.
\<close>

theorem getBool_cases:
  "getBool s =
     (if s \<in> {''true'', ''yes'', ''y'', ''''} then Inr True
      else if s \<in> {''false'', ''none'', ''no'', ''not'', ''n''} then Inr False
      else case intDenoted s of
             Some v \<Rightarrow> if fitsInt64 v then Inr (v \<noteq> 0) else Inl (TypeMismatch s ''bool'')
           | None \<Rightarrow> Inl (TypeMismatch s ''bool''))"
proof -
  have "Atoi s = (case getInt s of Inl e \<Rightarrow> Inl ErrSyntax | Inr v \<Rightarrow> Inr v) \<or> (\<exists>e. Atoi s = Inl e \<and> (\<exists>e'. getInt s = Inl e'))"
    by (auto simp: Atoi_def getInt_def split: sum.splits)
  then show ?thesis
    by (auto simp: getBool_def getInt_denoted split: sum.splits option.splits if_splits)
qed

subsection \<open>Delayed coercion (claims C4 and C10)\<close>

lemma setDefault_delayed:
  "isNeedDelaySet fl \<Longrightarrow> setDefault X fl s = (None, fl\<lparr>isAssigned := True, lastValue := s\<rparr>)"
  by (simp add: setDefault_def)

lemma flag_set_delayed:
  "isNeedDelaySet fl \<Longrightarrow>
   flag_set X fl n s =
     (None, fl\<lparr>isSet := True, isAssigned := True, actualFlagName := n, lastValue := s\<rparr>)"
  by (simp add: flag_set_def)

lemma flag_init_frame:
  "flag_init X fl d = (e, fl1) \<Longrightarrow>
   isNeedDelaySet fl1 = isNeedDelaySet fl \<and> tag fl1 = tag fl \<and> fieldType fl1 = fieldType fl
   \<and> isSet fl1 = isSet fl \<and> actualFlagName fl1 = actualFlagName fl"
  by (auto simp: flag_init_def setDefault_def Let_def
      split: sum.splits if_splits prod.splits)

lemma newFlag_fields:
  assumes "newFlag X fname ftype v canSet tg d = (Some fl, e)"
  shows "isNeedDelaySet fl = (parserCreator tg \<noteq> None \<or> (\<not> isSliceKind ftype \<and> \<not> isMapKind ftype))"
    and "tag fl = tg" and "fieldType fl = ftype" and "\<not> isSet fl"
  using assms flag_init_frame
  by (fastforce simp: newFlag_def Let_def split: if_splits prod.splits)+

lemma setAll_delayed:
  "isNeedDelaySet fl \<Longrightarrow>
   \<exists>fl1. setAll X fl cs = (None, fl1) \<and> fieldValue fl1 = fieldValue fl \<and> tag fl1 = tag fl
     \<and> fieldType fl1 = fieldType fl \<and> isNeedDelaySet fl1
     \<and> lastValue fl1 = (if cs = [] then lastValue fl else snd (last cs))"
proof (induction cs arbitrary: fl)
  case Nil
  then show ?case by simp
next
  case (Cons c cs)
  obtain n s where c: "c = (n, s)" by (cases c)
  let ?fl = "fl\<lparr>isSet := True, isAssigned := True, actualFlagName := n, lastValue := s\<rparr>"
  have "isNeedDelaySet ?fl" using Cons.prems by simp
  from Cons.IH [OF this] obtain fl1 where
    "setAll X ?fl cs = (None, fl1)" "fieldValue fl1 = fieldValue ?fl" "tag fl1 = tag ?fl"
    "fieldType fl1 = fieldType ?fl" "isNeedDelaySet fl1"
    "lastValue fl1 = (if cs = [] then lastValue ?fl else snd (last cs))"
    by blast
  then show ?case using Cons.prems c by (simp add: flag_set_delayed)
qed

text \<open>
  Claim C10.  On a field with delayed coercion, \<open>set\<close> and \<open>setDefault\<close> return no error,
  whatever the raw string is.
\<close>

theorem delayed_set_never_fails:
  "isNeedDelaySet fl \<Longrightarrow> fst (flag_set X fl n s) = None \<and> fst (setDefault X fl s) = None"
  by (simp add: flag_set_delayed setDefault_delayed)

theorem delayed_set_never_fails_witness:
  "isNeedDelaySet (exampleFlag TInt8 (VInt 0) exampleTag)
   \<and> fst (flag_set exampleExtern (exampleFlag TInt8 (VInt 0) exampleTag) ''-f'' ''no number'') = None
   \<and> fst (setDefault exampleExtern (exampleFlag TInt8 (VInt 0) exampleTag) ''no number'') = None"
proof -
  have d: "isNeedDelaySet (exampleFlag TInt8 (VInt 0) exampleTag)"
    by (simp add: exampleFlag_def exampleTag_def)
  from delayed_set_never_fails [OF d] d show ?thesis by blast
qed

text \<open>
  Claim C4.  \<open>newFlag\<close> turns delayed coercion on exactly for a field with a parser
  creator or of a kind that is neither slice nor map.  On such a field \<open>setDefault\<close> and
  \<open>set\<close> store the raw string in \<open>lastValue\<close> and leave the value of the field alone, so
  after any non-empty sequence of \<open>set\<close> calls \<open>lastValue\<close> is the raw string of the last
  call, and the deferred coercion is the coercion of that string into the value the
  field had before the calls.
\<close>

theorem delayed_coercion_last_value:
  "(newFlag X fname ftype v canSet tg d = (Some fl0, e0) \<longrightarrow>
      isNeedDelaySet fl0 =
        (parserCreator tg \<noteq> None \<or> (\<not> isSliceKind ftype \<and> \<not> isMapKind ftype)))
   \<and> (isNeedDelaySet fl \<longrightarrow>
        setDefault X fl s = (None, fl\<lparr>isAssigned := True, lastValue := s\<rparr>)
      \<and> flag_set X fl n s =
          (None, fl\<lparr>isSet := True, isAssigned := True, actualFlagName := n, lastValue := s\<rparr>)
      \<and> (cs \<noteq> [] \<longrightarrow>
           (\<exists>fl1. setAll X fl cs = (None, fl1)
              \<and> lastValue fl1 = snd (last cs)
              \<and> fieldValue fl1 = fieldValue fl
              \<and> fst (delayedCoerce X fl1) =
                  fst (setWithProperType X (tag fl) (fieldType fl) (fieldValue fl) (snd (last cs)) False)
              \<and> fieldValue (snd (delayedCoerce X fl1)) =
                  snd (setWithProperType X (tag fl) (fieldType fl) (fieldValue fl) (snd (last cs)) False))))"
proof -
  have seq: "\<exists>fl1. setAll X fl cs = (None, fl1)
              \<and> lastValue fl1 = snd (last cs)
              \<and> fieldValue fl1 = fieldValue fl
              \<and> fst (delayedCoerce X fl1) =
                  fst (setWithProperType X (tag fl) (fieldType fl) (fieldValue fl) (snd (last cs)) False)
              \<and> fieldValue (snd (delayedCoerce X fl1)) =
                  snd (setWithProperType X (tag fl) (fieldType fl) (fieldValue fl) (snd (last cs)) False)"
    if del: "isNeedDelaySet fl" and ne: "cs \<noteq> []"
  proof -
    from setAll_delayed [OF del, of X cs] ne obtain fl1 where
      fl1: "setAll X fl cs = (None, fl1)" "fieldValue fl1 = fieldValue fl" "tag fl1 = tag fl"
        "fieldType fl1 = fieldType fl" "isNeedDelaySet fl1" "lastValue fl1 = snd (last cs)"
      by auto
    then show ?thesis
      by (auto simp: delayedCoerce_def split: prod.splits)
  qed
  show ?thesis
    using newFlag_fields(1) [of X fname ftype v canSet tg d fl0 e0] seq
    by (simp add: setDefault_delayed flag_set_delayed)
qed

theorem delayed_coercion_last_value_witness:
  "newFlag exampleExtern ''F'' TString (VString []) True exampleTag False
     = (Some (exampleFlag TString (VString []) exampleTag), None)
   \<and> isNeedDelaySet (exampleFlag TString (VString []) exampleTag)
   \<and> (\<exists>fl1. setAll exampleExtern (exampleFlag TString (VString []) exampleTag)
               [(''-f'', ''xx''), (''-f'', ''yy''), (''-f'', ''zz'')] = (None, fl1)
          \<and> lastValue fl1 = ''zz''
          \<and> fieldValue fl1 = VString []
          \<and> fst (delayedCoerce exampleExtern fl1) = None
          \<and> fieldValue (snd (delayedCoerce exampleExtern fl1)) = VString ''zz'')"
proof -
  let ?fl = "exampleFlag TString (VString []) exampleTag"
  let ?cs = "[(''-f'', ''xx''), (''-f'', ''yy''), (''-f'', ''zz'')]"
  have new: "newFlag exampleExtern ''F'' TString (VString []) True exampleTag False = (Some ?fl, None)"
    by (simp add: newFlag_def flag_init_def exampleFlag_def exampleTag_def exampleExtern_def
        isInteger_def isFloat_def parseExpression_def)
  have tg: "parserCreator (tag ?fl) = None" and ty: "fieldType ?fl = TString"
    and v: "fieldValue ?fl = VString []"
    by (simp_all add: exampleFlag_def exampleTag_def)
  have kind: "parserCreator exampleTag \<noteq> None \<or> (\<not> isSliceKind TString \<and> \<not> isMapKind TString)"
    by simp
  have ne: "?cs \<noteq> []" by simp
  note inst = delayed_coercion_last_value
    [where X = exampleExtern and fname = "''F''" and ftype = TString and v = "VString []"
       and canSet = True and tg = exampleTag and d = False and ?fl0.0 = ?fl and ?e0.0 = None
       and fl = ?fl and cs = ?cs]
  from inst new kind have del: "isNeedDelaySet ?fl" by blast
  from inst del ne obtain fl1 where
    fl1: "setAll exampleExtern ?fl ?cs = (None, fl1)"
      "lastValue fl1 = snd (last ?cs)"
      "fieldValue fl1 = fieldValue ?fl"
      "fst (delayedCoerce exampleExtern fl1) =
         fst (setWithProperType exampleExtern (tag ?fl) (fieldType ?fl) (fieldValue ?fl) (snd (last ?cs)) False)"
      "fieldValue (snd (delayedCoerce exampleExtern fl1)) =
         snd (setWithProperType exampleExtern (tag ?fl) (fieldType ?fl) (fieldValue ?fl) (snd (last ?cs)) False)"
    by blast
  have "lastValue fl1 = ''zz''" using fl1(2) by simp
  moreover have "fieldValue fl1 = VString []" using fl1(3) v by simp
  moreover have "fst (delayedCoerce exampleExtern fl1) = None"
    using fl1(4) by (simp add: ty setWithProperType_string [OF tg])
  moreover have "fieldValue (snd (delayedCoerce exampleExtern fl1)) = VString ''zz''"
    using fl1(5) by (simp add: ty setWithProperType_string [OF tg])
  ultimately show ?thesis using new del fl1(1) by blast
qed

subsection \<open>The state of a binder (claim C7)\<close>

lemma flag_set_flags:
  "flag_set X fl n s = (e, fl1) \<Longrightarrow> isSet fl1 \<and> isAssigned fl1 \<and> actualFlagName fl1 = n"
  by (auto simp: flag_set_def Let_def split: if_splits prod.splits)

lemma setDefault_flags:
  "setDefault X fl s = (e, fl1) \<Longrightarrow> isAssigned fl1 \<and> isSet fl1 = isSet fl"
  by (auto simp: setDefault_def Let_def split: if_splits prod.splits)

lemma flag_set_snd: "isSet (snd (flag_set X fl n s)) \<and> isAssigned (snd (flag_set X fl n s))"
  using flag_set_flags [of X fl n s] by (cases "flag_set X fl n s") auto

lemma notReset_refl: "notReset fl fl"
  by (simp add: notReset_def)

lemma notReset_flag_set: "notReset fl (snd (flag_set X fl n s))"
  using flag_set_snd [of X fl n s] by (simp add: notReset_def binderInv_def)

lemma notReset_value: "notReset fl (fl\<lparr>fieldValue := v\<rparr>)"
  by (simp add: notReset_def binderInv_def)

lemma readPromptBody_notReset:
  "readPromptBody X P fl io = (e, fl1, io1) \<Longrightarrow> notReset fl fl1"
  by (auto simp: readPromptBody_def Let_def notReset_refl notReset_flag_set notReset_value
      split: if_splits prod.splits sum.splits)

lemma readPromptLoop_notReset:
  "readPromptLoop X P fls e io = (e1, fls1, io1) \<Longrightarrow> list_all2 notReset fls fls1"
proof (induction fls arbitrary: e io e1 fls1 io1)
  case Nil
  then show ?case by simp
next
  case (Cons fl fls)
  show ?case
  proof (cases "isAssigned fl \<or> prompt (tag fl) = []")
    case True
    with Cons.prems obtain fls2 where "readPromptLoop X P fls e io = (e1, fls2, io1)"
      and "fls1 = fl # fls2"
      by (auto split: prod.splits)
    with Cons.IH show ?thesis by (auto simp: notReset_refl)
  next
    case False
    obtain eb flb iob where body: "readPromptBody X P fl io = (eb, flb, iob)"
      by (cases "readPromptBody X P fl io") auto
    have nr: "notReset fl flb" using body by (rule readPromptBody_notReset)
    show ?thesis
    proof (cases eb)
      case None
      with False body Cons.prems obtain fls2 where
        "readPromptLoop X P fls None iob = (e1, fls2, io1)" and "fls1 = flb # fls2"
        by (auto split: prod.splits)
      with Cons.IH nr show ?thesis by auto
    next
      case (Some a)
      with False body Cons.prems have "fls1 = flb # fls" by auto
      with nr show ?thesis by (simp add: list_all2_refl notReset_refl)
    qed
  qed
qed

text \<open>
  Claim C7.  A binder built by \<open>newFlag\<close> is not set, so it satisfies the invariant
  \<open>isSet \<longrightarrow> isAssigned\<close>.  \<open>setDefault\<close> makes the binder assigned and leaves \<open>isSet\<close> as it
  was; \<open>set\<close> makes it set and assigned and records the actual flag name; both keep the
  invariant.  \<open>readPrompt\<close> keeps the number of binders, and for every binder it keeps
  the invariant and takes neither \<open>isAssigned\<close> nor \<open>isSet\<close> from true back to false.
\<close>

theorem binder_state_invariant:
  "(newFlag X fname ftype v canSet tg d = (Some fl0, e0) \<longrightarrow> \<not> isSet fl0 \<and> binderInv fl0)
   \<and> (setDefault X fl s = (e1, fl1) \<longrightarrow>
        isAssigned fl1 \<and> isSet fl1 = isSet fl \<and> notReset fl fl1)
   \<and> (flag_set X fl n s = (e2, fl2) \<longrightarrow>
        isSet fl2 \<and> isAssigned fl2 \<and> actualFlagName fl2 = n \<and> binderInv fl2 \<and> notReset fl fl2)
   \<and> (readPrompt X P fs io = (fs1, io1) \<longrightarrow>
        length (flags fs1) = length (flags fs)
        \<and> (\<forall>i < length (flags fs). notReset (flags fs ! i) (flags fs1 ! i)))"
proof -
  have a: "\<not> isSet fl0 \<and> binderInv fl0"
    if "newFlag X fname ftype v canSet tg d = (Some fl0, e0)"
    using newFlag_fields(4) [OF that] by (simp add: binderInv_def)
  have b: "isAssigned fl1 \<and> isSet fl1 = isSet fl \<and> notReset fl fl1"
    if "setDefault X fl s = (e1, fl1)"
    using setDefault_flags [OF that] by (simp add: notReset_def binderInv_def)
  have c: "isSet fl2 \<and> isAssigned fl2 \<and> actualFlagName fl2 = n \<and> binderInv fl2 \<and> notReset fl fl2"
    if "flag_set X fl n s = (e2, fl2)"
    using flag_set_flags [OF that] by (simp add: notReset_def binderInv_def)
  have d: "length (flags fs1) = length (flags fs)
        \<and> (\<forall>i < length (flags fs). notReset (flags fs ! i) (flags fs1 ! i))"
    if rp: "readPrompt X P fs io = (fs1, io1)"
  proof -
    from rp obtain e where "readPromptLoop X P (flags fs) (err fs) io = (e, flags fs1, io1)"
      by (auto simp: readPrompt_def split: prod.splits)
    then have "list_all2 notReset (flags fs) (flags fs1)" by (rule readPromptLoop_notReset)
    then show ?thesis by (simp add: list_all2_conv_all_nth)
  qed
  from a b c d show ?thesis by blast
qed

theorem binder_state_invariant_witness:
  "\<not> isSet (exampleFlag TString (VString []) exampleTag)
   \<and> binderInv (exampleFlag TString (VString []) exampleTag)
   \<and> isAssigned (snd (setDefault exampleExtern (exampleFlag TString (VString []) exampleTag) ''a''))
   \<and> \<not> isSet (snd (setDefault exampleExtern (exampleFlag TString (VString []) exampleTag) ''a''))
   \<and> isSet (snd (flag_set exampleExtern (exampleFlag TString (VString []) exampleTag) ''-f'' ''a''))
   \<and> isAssigned (snd (flag_set exampleExtern (exampleFlag TString (VString []) exampleTag) ''-f'' ''a''))
   \<and> actualFlagName (snd (flag_set exampleExtern (exampleFlag TString (VString []) exampleTag) ''-f'' ''a'')) = ''-f''
   \<and> length (flags (fst (readPrompt exampleExtern examplePrompter
         (exampleFlagSet [exampleFlag TString (VString []) examplePasswordTag]) [''secret'']))) = 1
   \<and> notReset (exampleFlag TString (VString []) examplePasswordTag)
        (flags (fst (readPrompt exampleExtern examplePrompter
           (exampleFlagSet [exampleFlag TString (VString []) examplePasswordTag]) [''secret''])) ! 0)"
proof -
  let ?fl = "exampleFlag TString (VString []) exampleTag"
  let ?pw = "exampleFlag TString (VString []) examplePasswordTag"
  let ?fs = "exampleFlagSet [?pw]"
  have new: "newFlag exampleExtern ''F'' TString (VString []) True exampleTag False = (Some ?fl, None)"
    by (simp add: newFlag_def flag_init_def exampleFlag_def exampleTag_def exampleExtern_def
        isInteger_def isFloat_def parseExpression_def)
  have sd: "setDefault exampleExtern ?fl ''a''
      = (fst (setDefault exampleExtern ?fl ''a''), snd (setDefault exampleExtern ?fl ''a''))"
    by simp
  have fs: "flag_set exampleExtern ?fl ''-f'' ''a''
      = (fst (flag_set exampleExtern ?fl ''-f'' ''a''), snd (flag_set exampleExtern ?fl ''-f'' ''a''))"
    by simp
  have rp: "readPrompt exampleExtern examplePrompter ?fs [''secret'']
      = (fst (readPrompt exampleExtern examplePrompter ?fs [''secret'']),
         snd (readPrompt exampleExtern examplePrompter ?fs [''secret'']))"
    by simp
  have unset: "\<not> isSet ?fl" by (simp add: exampleFlag_def)
  have len: "length (flags ?fs) = 1" "flags ?fs ! 0 = ?pw" by (simp_all add: exampleFlagSet_def)
  note inst = binder_state_invariant
    [where X = exampleExtern and fname = "''F''" and ftype = TString and v = "VString []"
       and canSet = True and tg = exampleTag and d = False and ?fl0.0 = ?fl and ?e0.0 = None
       and fl = ?fl and s = "''a''" and n = "''-f''"
       and ?e1.0 = "fst (setDefault exampleExtern ?fl ''a'')"
       and ?fl1.0 = "snd (setDefault exampleExtern ?fl ''a'')"
       and ?e2.0 = "fst (flag_set exampleExtern ?fl ''-f'' ''a'')"
       and ?fl2.0 = "snd (flag_set exampleExtern ?fl ''-f'' ''a'')"
       and P = examplePrompter and fs = ?fs and io = "[''secret'']"
       and ?fs1.0 = "fst (readPrompt exampleExtern examplePrompter ?fs [''secret''])"
       and ?io1.0 = "snd (readPrompt exampleExtern examplePrompter ?fs [''secret''])"]
  from inst new have 1: "\<not> isSet ?fl \<and> binderInv ?fl" by blast
  from inst sd have 2: "isAssigned (snd (setDefault exampleExtern ?fl ''a''))
      \<and> isSet (snd (setDefault exampleExtern ?fl ''a'')) = isSet ?fl" by blast
  from inst fs have 3: "isSet (snd (flag_set exampleExtern ?fl ''-f'' ''a''))
      \<and> isAssigned (snd (flag_set exampleExtern ?fl ''-f'' ''a''))
      \<and> actualFlagName (snd (flag_set exampleExtern ?fl ''-f'' ''a'')) = ''-f''" by blast
  from inst rp have 4: "length (flags (fst (readPrompt exampleExtern examplePrompter ?fs [''secret''])))
        = length (flags ?fs)
      \<and> (\<forall>i < length (flags ?fs). notReset (flags ?fs ! i)
            (flags (fst (readPrompt exampleExtern examplePrompter ?fs [''secret''])) ! i))" by blast
  from 4 len have 5: "length (flags (fst (readPrompt exampleExtern examplePrompter ?fs [''secret'']))) = 1
      \<and> notReset ?pw (flags (fst (readPrompt exampleExtern examplePrompter ?fs [''secret''])) ! 0)"
    by (metis less_numeral_extra(1))
  from 1 2 3 5 unset show ?thesis by simp
qed

subsection \<open>Prompting (claims C8 and C9)\<close>

lemma readPromptLoop_length:
  "readPromptLoop X P fls e io = (e1, fls1, io1) \<Longrightarrow> length fls1 = length fls"
  using readPromptLoop_notReset [of X P fls e io e1 fls1 io1] by (simp add: list_all2_lengthD)

lemma readPromptLoop_append:
  "readPromptLoop X P pre e io = (None, pre1, io1) \<Longrightarrow>
   readPromptLoop X P (pre @ rest) e io =
     (case readPromptLoop X P rest None io1 of (e2, rest2, io2) \<Rightarrow> (e2, pre1 @ rest2, io2))"
proof (induction pre arbitrary: e io pre1 io1)
  case Nil
  then show ?case by simp
next
  case (Cons fl pre)
  show ?case
  proof (cases "isAssigned fl \<or> prompt (tag fl) = []")
    case True
    with Cons.prems obtain f2 where "readPromptLoop X P pre e io = (None, f2, io1)"
      and "pre1 = fl # f2"
      by (auto split: prod.splits)
    with Cons.IH [of e io f2 io1] True show ?thesis by (auto split: prod.splits)
  next
    case False
    obtain eb flb iob where body: "readPromptBody X P fl io = (eb, flb, iob)"
      by (cases "readPromptBody X P fl io") auto
    with False Cons.prems have eb: "eb = None" by (auto split: if_splits prod.splits)
    with False body Cons.prems obtain f2 where "readPromptLoop X P pre None iob = (None, f2, io1)"
      and "pre1 = flb # f2"
      by (auto split: prod.splits)
    with Cons.IH [of None iob f2 io1] False body eb show ?thesis by (auto split: prod.splits)
  qed
qed

lemma readPrompt_at:
  assumes "flags fs = pre @ fl # post"
    and "readPromptLoop X P pre (err fs) io = (None, pre1, io1)"
    and "\<not> isAssigned fl" and "prompt (tag fl) \<noteq> []"
    and "readPromptBody X P fl io1 = (eb, flb, iob)"
  shows "flags (fst (readPrompt X P fs io)) ! length pre = flb"
proof -
  have len: "length pre1 = length pre" using assms(2) by (rule readPromptLoop_length)
  obtain e2 r2 io2 where r: "readPromptLoop X P (fl # post) None io1 = (e2, r2, io2)"
    by (cases "readPromptLoop X P (fl # post) None io1") auto
  then have hd: "\<exists>r3. r2 = flb # r3"
    using assms(3-5) by (auto split: if_splits prod.splits)
  have "readPromptLoop X P (flags fs) (err fs) io = (e2, pre1 @ r2, io2)"
    using readPromptLoop_append [OF assms(2), of "fl # post"] r assms(1) by simp
  then have "flags (fst (readPrompt X P fs io)) = pre1 @ r2"
    by (simp add: readPrompt_def)
  with hd len show ?thesis by (auto simp: nth_append)
qed

text \<open>
  Claim C9.  In \<open>readPrompt\<close>, for a flag that is reached by the loop, is not assigned,
  has a prompt text, is no password and is boolean, a yes/no read that succeeds writes
  the answer into the value of the field and changes nothing else: \<open>isAssigned\<close>,
  \<open>isSet\<close> and the actual flag name are as before, so the flag is still not assigned.
  For a flag that is not boolean the two line-reading branches hand the line to \<open>set\<close>,
  which makes the flag set and assigned.
\<close>

theorem prompt_boolean_writes_value_only:
  assumes "flags fs = pre @ fl # post"
    and "readPromptLoop X P pre (err fs) io = (None, pre1, io1)"
    and "\<not> isAssigned fl" and "prompt (tag fl) \<noteq> []" and "\<not> isPassword (tag fl)"
  shows "(isBoolean fl \<and> Ask P (prompt (tag fl) @ '': '') io1 = (Inr yes, io2) \<longrightarrow>
            flags (fst (readPrompt X P fs io)) ! length pre = fl\<lparr>fieldValue := VBool yes\<rparr>
          \<and> fieldValue (flags (fst (readPrompt X P fs io)) ! length pre) = VBool yes
          \<and> \<not> isAssigned (flags (fst (readPrompt X P fs io)) ! length pre)
          \<and> isSet (flags (fst (readPrompt X P fs io)) ! length pre) = isSet fl
          \<and> actualFlagName (flags (fst (readPrompt X P fs io)) ! length pre) = actualFlagName fl)
       \<and> (\<not> isBoolean fl \<and> defaultValue (tag fl) \<noteq> []
          \<and> BasicDefault P (prompt (tag fl) @ '': '') (defaultValue (tag fl)) io1 = (Inr data, io2) \<longrightarrow>
            flags (fst (readPrompt X P fs io)) ! length pre = snd (flag_set X fl data data)
          \<and> isAssigned (flags (fst (readPrompt X P fs io)) ! length pre)
          \<and> isSet (flags (fst (readPrompt X P fs io)) ! length pre))
       \<and> (\<not> isBoolean fl \<and> defaultValue (tag fl) = []
          \<and> Basic P (prompt (tag fl) @ '': '') (required (tag fl)) io1 = (Inr data, io2) \<longrightarrow>
            flags (fst (readPrompt X P fs io)) ! length pre = snd (flag_set X fl data data)
          \<and> isAssigned (flags (fst (readPrompt X P fs io)) ! length pre)
          \<and> isSet (flags (fst (readPrompt X P fs io)) ! length pre))"
proof -
  let ?fl1 = "flags (fst (readPrompt X P fs io)) ! length pre"
  have yesno: "?fl1 = fl\<lparr>fieldValue := VBool yes\<rparr>"
    if "isBoolean fl" "Ask P (prompt (tag fl) @ '': '') io1 = (Inr yes, io2)"
  proof -
    have "readPromptBody X P fl io1 = (None, fl\<lparr>fieldValue := VBool yes\<rparr>, io2)"
      using that assms(5) by (simp add: readPromptBody_def)
    with assms(1-4) show ?thesis by (rule readPrompt_at)
  qed
  have dflt: "?fl1 = snd (flag_set X fl data data)"
    if "\<not> isBoolean fl" "defaultValue (tag fl) \<noteq> []"
      "BasicDefault P (prompt (tag fl) @ '': '') (defaultValue (tag fl)) io1 = (Inr data, io2)"
  proof -
    have "readPromptBody X P fl io1 = (None, snd (flag_set X fl data data), io2)"
      using that assms(5) by (simp add: readPromptBody_def)
    with assms(1-4) show ?thesis by (rule readPrompt_at)
  qed
  have line: "?fl1 = snd (flag_set X fl data data)"
    if "\<not> isBoolean fl" "defaultValue (tag fl) = []"
      "Basic P (prompt (tag fl) @ '': '') (required (tag fl)) io1 = (Inr data, io2)"
  proof -
    have "readPromptBody X P fl io1 = (None, snd (flag_set X fl data data), io2)"
      using that assms(5) by (simp add: readPromptBody_def)
    with assms(1-4) show ?thesis by (rule readPrompt_at)
  qed
  show ?thesis
    using yesno dflt line assms(3) flag_set_snd [of X fl data data] by auto
qed

lemma readNonEmptyLine_nonempty:
  "readNonEmptyLine io = (Inr data, io1) \<Longrightarrow> data \<noteq> []"
  by (induction io) (auto split: if_splits)

lemma passwordNonEmpty_example: "passwordNonEmpty examplePrompter"
  using readNonEmptyLine_nonempty by (auto simp: passwordNonEmpty_def examplePrompter_def)

text \<open>
  Claim C8.  In \<open>readPrompt\<close>, for a flag that is reached by the loop, is not assigned,
  has a prompt text and is a password, a masked read that succeeds hands the line to
  \<open>set\<close> as the value and as the flag name, so the flag is assigned and set afterwards.
  The guard \<open>data != ""\<close> of the source never decides, since \<open>prompt.Password\<close> returns no
  empty line.
\<close>

theorem prompt_password_sets:
  assumes "passwordNonEmpty P"
    and "flags fs = pre @ fl # post"
    and "readPromptLoop X P pre (err fs) io = (None, pre1, io1)"
    and "\<not> isAssigned fl" and "prompt (tag fl) \<noteq> []" and "isPassword (tag fl)"
    and "Password P (prompt (tag fl) @ '': '') io1 = (Inr data, io2)"
  shows "flags (fst (readPrompt X P fs io)) ! length pre = snd (flag_set X fl data data)
       \<and> isAssigned (flags (fst (readPrompt X P fs io)) ! length pre)
       \<and> isSet (flags (fst (readPrompt X P fs io)) ! length pre)
       \<and> actualFlagName (flags (fst (readPrompt X P fs io)) ! length pre) = data"
proof -
  from assms(1,7) have ne: "data \<noteq> []" by (auto simp: passwordNonEmpty_def)
  have "readPromptBody X P fl io1 = (None, snd (flag_set X fl data data), io2)"
    using assms(6,7) ne by (simp add: readPromptBody_def)
  with assms(2-5)
  have at: "flags (fst (readPrompt X P fs io)) ! length pre = snd (flag_set X fl data data)"
    by (rule readPrompt_at)
  have "actualFlagName (snd (flag_set X fl data data)) = data"
    using flag_set_flags [of X fl data data] by (cases "flag_set X fl data data") auto
  with at flag_set_snd [of X fl data data] show ?thesis by simp
qed

lemmas example_simps = exampleFlag_def exampleFlagSet_def exampleTag_def examplePasswordTag_def
  examplePromptTag_def exampleDefaultTag_def examplePrompter_def readYesNo_def readLineDefault_def

theorem prompt_boolean_writes_value_only_witness:
  "flags (fst (readPrompt exampleExtern examplePrompter
       (exampleFlagSet [exampleFlag TBool (VBool False) examplePromptTag]) [''y''])) ! 0
     = (exampleFlag TBool (VBool False) examplePromptTag)\<lparr>fieldValue := VBool True\<rparr>
   \<and> \<not> isAssigned (flags (fst (readPrompt exampleExtern examplePrompter
       (exampleFlagSet [exampleFlag TBool (VBool False) examplePromptTag]) [''y''])) ! 0)
   \<and> isSet (flags (fst (readPrompt exampleExtern examplePrompter
       (exampleFlagSet [exampleFlag TString (VString []) exampleDefaultTag]) [''bob''])) ! 0)
   \<and> isSet (flags (fst (readPrompt exampleExtern examplePrompter
       (exampleFlagSet [exampleFlag TString (VString []) examplePromptTag]) [''bob''])) ! 0)"
proof -
  let ?b = "exampleFlag TBool (VBool False) examplePromptTag"
  let ?d = "exampleFlag TString (VString []) exampleDefaultTag"
  let ?l = "exampleFlag TString (VString []) examplePromptTag"
  have pre: "readPromptLoop exampleExtern examplePrompter [] (err (exampleFlagSet fls)) io = (None, [], io)"
    for fls and io :: "string list"
    by (simp add: exampleFlagSet_def)
  have lay: "flags (exampleFlagSet [fl]) = [] @ fl # []" for fl
    by (simp add: exampleFlagSet_def)
  have b: "\<not> isAssigned ?b" "prompt (tag ?b) \<noteq> []" "\<not> isPassword (tag ?b)" "isBoolean ?b"
    "Ask examplePrompter (prompt (tag ?b) @ '': '') [''y''] = (Inr True, [])"
    by (simp_all add: example_simps isBoolean_def)
  have d: "\<not> isAssigned ?d" "prompt (tag ?d) \<noteq> []" "\<not> isPassword (tag ?d)" "\<not> isBoolean ?d"
    "defaultValue (tag ?d) \<noteq> []"
    "BasicDefault examplePrompter (prompt (tag ?d) @ '': '') (defaultValue (tag ?d)) [''bob'']
       = (Inr ''bob'', [])"
    by (simp_all add: example_simps isBoolean_def)
  have l: "\<not> isAssigned ?l" "prompt (tag ?l) \<noteq> []" "\<not> isPassword (tag ?l)" "\<not> isBoolean ?l"
    "defaultValue (tag ?l) = []"
    "Basic examplePrompter (prompt (tag ?l) @ '': '') (required (tag ?l)) [''bob'']
       = (Inr ''bob'', [])"
    by (simp_all add: example_simps isBoolean_def)
  from prompt_boolean_writes_value_only [OF lay pre b(1,2,3), where yes = True and ?io2.0 = "[]"] b(4,5)
  have 1: "flags (fst (readPrompt exampleExtern examplePrompter (exampleFlagSet [?b]) [''y''])) ! length ([] :: flag list)
             = ?b\<lparr>fieldValue := VBool True\<rparr>
           \<and> \<not> isAssigned (flags (fst (readPrompt exampleExtern examplePrompter (exampleFlagSet [?b]) [''y''])) ! length ([] :: flag list))"
    by blast
  from prompt_boolean_writes_value_only [OF lay pre d(1,2,3), where data = "''bob''" and ?io2.0 = "[]"] d(4,5,6)
  have 2: "isSet (flags (fst (readPrompt exampleExtern examplePrompter (exampleFlagSet [?d]) [''bob''])) ! length ([] :: flag list))"
    by blast
  from prompt_boolean_writes_value_only [OF lay pre l(1,2,3), where data = "''bob''" and ?io2.0 = "[]"] l(4,5,6)
  have 3: "isSet (flags (fst (readPrompt exampleExtern examplePrompter (exampleFlagSet [?l]) [''bob''])) ! length ([] :: flag list))"
    by blast
  from 1 2 3 b(1) show ?thesis by simp
qed

theorem prompt_password_sets_witness:
  "passwordNonEmpty examplePrompter
   \<and> Password examplePrompter ''password: '' ['''', ''secret''] = (Inr ''secret'', [])
   \<and> isAssigned (flags (fst (readPrompt exampleExtern examplePrompter
       (exampleFlagSet [exampleFlag TString (VString []) examplePasswordTag]) ['''', ''secret''])) ! 0)
   \<and> isSet (flags (fst (readPrompt exampleExtern examplePrompter
       (exampleFlagSet [exampleFlag TString (VString []) examplePasswordTag]) ['''', ''secret''])) ! 0)
   \<and> actualFlagName (flags (fst (readPrompt exampleExtern examplePrompter
       (exampleFlagSet [exampleFlag TString (VString []) examplePasswordTag]) ['''', ''secret''])) ! 0)
       = ''secret''"
proof -
  let ?pw = "exampleFlag TString (VString []) examplePasswordTag"
  have pre: "readPromptLoop exampleExtern examplePrompter [] (err (exampleFlagSet fls)) io = (None, [], io)"
    for fls and io :: "string list"
    by (simp add: exampleFlagSet_def)
  have lay: "flags (exampleFlagSet [fl]) = [] @ fl # []" for fl
    by (simp add: exampleFlagSet_def)
  have p: "\<not> isAssigned ?pw" "prompt (tag ?pw) \<noteq> []" "isPassword (tag ?pw)"
    by (simp_all add: example_simps)
  have r: "Password examplePrompter (prompt (tag ?pw) @ '': '') ['''', ''secret''] = (Inr ''secret'', [])"
    and r0: "Password examplePrompter ''password: '' ['''', ''secret''] = (Inr ''secret'', [])"
    by (simp_all add: example_simps)
  from prompt_password_sets [OF passwordNonEmpty_example lay pre p r]
  have "isAssigned (flags (fst (readPrompt exampleExtern examplePrompter (exampleFlagSet [?pw]) ['''', ''secret''])) ! length ([] :: flag list))
      \<and> isSet (flags (fst (readPrompt exampleExtern examplePrompter (exampleFlagSet [?pw]) ['''', ''secret''])) ! length ([] :: flag list))
      \<and> actualFlagName (flags (fst (readPrompt exampleExtern examplePrompter (exampleFlagSet [?pw]) ['''', ''secret''])) ! length ([] :: flag list))
          = ''secret''"
    by blast
  with passwordNonEmpty_example r0 show ?thesis by simp
qed

subsection \<open>Slices (claim C3)\<close>

lemma copyElems_slice:
  "k \<le> n \<Longrightarrow> n \<le> length es \<Longrightarrow> n \<le> length ds \<Longrightarrow>
   copyElems k n (VSlice es sp) (VSlice ds dsp) =
     VSlice (take k ds @ take (n - k) (drop k es) @ drop n ds) dsp"
proof (induction "n - k" arbitrary: k ds)
  case 0
  then show ?case by (simp add: copyElems.simps)
next
  case (Suc d)
  then have lt: "k < n" by simp
  have d: "d = n - Suc k" using Suc.hyps(2) by simp
  have len: "n \<le> length (ds[k := es ! k])" using Suc.prems by simp
  have step: "copyElems k n (VSlice es sp) (VSlice ds dsp)
      = copyElems (Suc k) n (VSlice es sp) (VSlice (ds[k := es ! k]) dsp)"
    using lt by (subst copyElems.simps) simp
  have kes: "k < length es" and kds: "k < length ds" using lt Suc.prems by simp_all
  have t1: "take (Suc k) (ds[k := es ! k]) = take k ds @ [es ! k]"
    using kds by (simp add: take_Suc_conv_app_nth)
  have t2: "take (n - k) (drop k es) = es ! k # take (n - Suc k) (drop (Suc k) es)"
    using kes lt by (metis Cons_nth_drop_Suc Suc_diff_Suc take_Suc_Cons)
  have t3: "drop n (ds[k := es ! k]) = drop n ds" using lt by simp
  show ?case
    using Suc.hyps(1) [OF d _ Suc.prems(2) len] lt step t1 t2 t3 by simp
qed

lemma copyElems_grow:
  "copyElems 0 (length es) (VSlice es []) (MakeSlice t (Suc (length es)) (Suc (length es + c)))
     = VSlice (es @ [zero t]) (replicate c (zero t))"
proof -
  let ?ds = "replicate (Suc (length es)) (zero t)"
  have last: "drop (length es) ?ds = [zero t]"
    by (simp only: drop_replicate) simp
  have "copyElems 0 (length es) (VSlice es []) (VSlice ?ds (replicate c (zero t)))
      = VSlice (take 0 ?ds @ take (length es - 0) (drop 0 es) @ drop (length es) ?ds)
          (replicate c (zero t))"
    by (rule copyElems_slice) simp_all
  then show ?thesis using last by (simp add: MakeSlice_def)
qed

lemma setWithProperType_slice_nil:
  assumes "parserCreator tg = None"
  shows "setWithProperType X tg (TSlice t) VNilSlice s False =
     (case setWithProperType X tg t (zero t) s True of
        (e, el) \<Rightarrow> (e, VSlice [el] (replicate 3 (zero t))))"
  using assms
  by (subst setWithProperType.simps) (simp add: MakeSlice_def eval_nat_numeral)

lemma setWithProperType_slice_room:
  assumes "parserCreator tg = None"
  shows "setWithProperType X tg (TSlice t) (VSlice es (c # sp)) s False =
     (case setWithProperType X tg t c s True of
        (e, el) \<Rightarrow> (e, VSlice (es @ [el]) sp))"
  using assms
  by (subst setWithProperType.simps) (simp add: nth_append)

lemma setWithProperType_slice_full:
  assumes "parserCreator tg = None"
  shows "setWithProperType X tg (TSlice t) (VSlice es []) s False =
     (case setWithProperType X tg t (zero t) s True of
        (e, el) \<Rightarrow> (e, VSlice (es @ [el]) (replicate (length es div 2) (zero t))))"
  using assms
  by (subst setWithProperType.simps) (simp add: Let_def copyElems_grow nth_append)

lemma Len_elems: "isSliceVal v \<Longrightarrow> Len v = length (elems v)"
  by (cases v) simp_all

lemma setWithProperType_slice:
  assumes tg: "parserCreator tg = None" and v: "isSliceVal v"
  shows "fst (setWithProperType X tg (TSlice t) v s False)
           = fst (setWithProperType X tg t (nextCell t v) s True)
       \<and> isSliceVal (snd (setWithProperType X tg (TSlice t) v s False))
       \<and> elems (snd (setWithProperType X tg (TSlice t) v s False))
           = elems v @ [snd (setWithProperType X tg t (nextCell t v) s True)]
       \<and> Cap (snd (setWithProperType X tg (TSlice t) v s False))
           = (if IsNil v then 4
              else if Len v + 1 \<le> Cap v then Cap v
              else Len v + Cap v div 2 + 1)"
proof (cases v)
  case VNilSlice
  then show ?thesis
    by (simp add: setWithProperType_slice_nil [OF tg] split: prod.splits)
next
  case (VSlice es sp)
  show ?thesis
  proof (cases sp)
    case Nil
    with VSlice show ?thesis
      by (simp add: setWithProperType_slice_full [OF tg] split: prod.splits)
  next
    case (Cons c sp1)
    with VSlice show ?thesis
      by (simp add: setWithProperType_slice_room [OF tg] split: prod.splits)
  qed
qed (use v in simp_all)

lemma flag_set_sequence:
  assumes "isSequenceField t fl"
  shows "flag_set X fl n s =
     (fst (setWithProperType X (tag fl) (TSlice t) (fieldValue fl) s False),
      fl\<lparr>isSet := True, isAssigned := True, actualFlagName := n,
         fieldValue := snd (setWithProperType X (tag fl) (TSlice t) (fieldValue fl) s False)\<rparr>)"
  using assms by (simp add: isSequenceField_def flag_set_def split: prod.splits)

lemma flag_set_sequence_step:
  assumes sf: "isSequenceField t fl" and st: "flag_set X fl n s = (e, fl1)"
  shows "isSequenceField t fl1" and "tag fl1 = tag fl"
    and "e = fst (setWithProperType X (tag fl) t (nextCell t (fieldValue fl)) s True)"
    and "elems (fieldValue fl1)
          = elems (fieldValue fl) @ [snd (setWithProperType X (tag fl) t (nextCell t (fieldValue fl)) s True)]"
    and "Cap (fieldValue fl1)
          = (if IsNil (fieldValue fl) then 4
             else if Len (fieldValue fl) + 1 \<le> Cap (fieldValue fl) then Cap (fieldValue fl)
             else Len (fieldValue fl) + Cap (fieldValue fl) div 2 + 1)"
proof -
  from sf have tg: "parserCreator (tag fl) = None" and v: "isSliceVal (fieldValue fl)"
    by (simp_all add: isSequenceField_def)
  note step = setWithProperType_slice [OF tg v, of X t s]
  from st have e: "e = fst (setWithProperType X (tag fl) (TSlice t) (fieldValue fl) s False)"
    and fl1: "fl1 = fl\<lparr>isSet := True, isAssigned := True, actualFlagName := n,
         fieldValue := snd (setWithProperType X (tag fl) (TSlice t) (fieldValue fl) s False)\<rparr>"
    by (simp_all add: flag_set_sequence [OF sf])
  show "isSequenceField t fl1" using sf step by (simp add: fl1 isSequenceField_def)
  show "tag fl1 = tag fl" by (simp add: fl1)
  show "e = fst (setWithProperType X (tag fl) t (nextCell t (fieldValue fl)) s True)"
    using step by (simp add: e)
  show "elems (fieldValue fl1)
          = elems (fieldValue fl) @ [snd (setWithProperType X (tag fl) t (nextCell t (fieldValue fl)) s True)]"
    using step by (simp add: fl1)
  show "Cap (fieldValue fl1)
          = (if IsNil (fieldValue fl) then 4
             else if Len (fieldValue fl) + 1 \<le> Cap (fieldValue fl) then Cap (fieldValue fl)
             else Len (fieldValue fl) + Cap (fieldValue fl) div 2 + 1)"
    using step by (simp add: fl1)
qed

lemma setAll_sequence:
  "isSequenceField t fl \<Longrightarrow> setAll X fl cs = (None, fl2) \<Longrightarrow>
   isSequenceField t fl2 \<and>
   (\<exists>els. elems (fieldValue fl2) = elems (fieldValue fl) @ els \<and> length els = length cs \<and>
      (\<forall>i<length cs. \<exists>cell.
          setWithProperType X (tag fl) t cell (snd (cs ! i)) True = (None, els ! i)))"
proof (induction cs arbitrary: fl)
  case Nil
  then show ?case by simp
next
  case (Cons c cs)
  obtain n s where c: "c = (n, s)" by (cases c)
  obtain e fl1 where st: "flag_set X fl n s = (e, fl1)" by (cases "flag_set X fl n s")
  with Cons.prems(2) c have e: "e = None" and rest: "setAll X fl1 cs = (None, fl2)"
    by (auto split: option.splits)
  let ?r = "setWithProperType X (tag fl) t (nextCell t (fieldValue fl)) s True"
  note step = flag_set_sequence_step [OF Cons.prems(1) st]
  from step(3) e have ok: "?r = (None, snd ?r)" by (metis prod.collapse)
  from Cons.IH [OF step(1) rest] obtain els where
    sf2: "isSequenceField t fl2"
    and els: "elems (fieldValue fl2) = elems (fieldValue fl1) @ els" "length els = length cs"
    and each: "\<forall>i<length cs. \<exists>cell.
          setWithProperType X (tag fl1) t cell (snd (cs ! i)) True = (None, els ! i)"
    by blast
  have "elems (fieldValue fl2) = elems (fieldValue fl) @ (snd ?r # els)"
    using els(1) step(4) by simp
  moreover have "length (snd ?r # els) = length (c # cs)" using els(2) by simp
  moreover have "\<exists>cell. setWithProperType X (tag fl) t cell (snd ((c # cs) ! i)) True
                    = (None, (snd ?r # els) ! i)"
    if "i < length (c # cs)" for i
  proof (cases i)
    case 0
    then show ?thesis using ok c by auto
  next
    case (Suc j)
    with that each step(2) show ?thesis by auto
  qed
  ultimately show ?case using sf2 by blast
qed

text \<open>
  Claim C3.  On a sequence field every \<open>set\<close> call appends exactly one element, at the
  index that was the length before the call: the element is what the coercion of the raw
  string left in that cell, and the call returns the error of that coercion, so a
  successful call appends the coerced element.  After a run of successful calls the
  length has grown by the number of calls, the elements present before are unchanged,
  and the element at position \<open>i\<close> behind them is the coercion of the raw string of call
  \<open>i\<close>; from an empty or nil sequence the length is the number of calls.  When the
  capacity does not suffice, the new capacity is \<open>Len + Cap div 2 + 1\<close> with the elements
  copied; a nil slice is first made a slice of capacity 4.
\<close>

theorem sequence_set_appends:
  assumes "isSequenceField t fl"
  shows "(flag_set X fl n s = (e, fl1) \<longrightarrow>
            e = fst (setWithProperType X (tag fl) t (nextCell t (fieldValue fl)) s True)
          \<and> elems (fieldValue fl1)
              = elems (fieldValue fl)
                @ [snd (setWithProperType X (tag fl) t (nextCell t (fieldValue fl)) s True)]
          \<and> Len (fieldValue fl1) = Len (fieldValue fl) + 1
          \<and> Cap (fieldValue fl1)
              = (if IsNil (fieldValue fl) then 4
                 else if Len (fieldValue fl) + 1 \<le> Cap (fieldValue fl) then Cap (fieldValue fl)
                 else Len (fieldValue fl) + Cap (fieldValue fl) div 2 + 1))
       \<and> (setAll X fl cs = (None, fl2) \<longrightarrow>
            Len (fieldValue fl2) = Len (fieldValue fl) + length cs
          \<and> take (Len (fieldValue fl)) (elems (fieldValue fl2)) = elems (fieldValue fl)
          \<and> (\<forall>i < length cs. \<exists>cell.
                setWithProperType X (tag fl) t cell (snd (cs ! i)) True
                  = (None, elems (fieldValue fl2) ! (Len (fieldValue fl) + i))))"
proof -
  from assms have v: "isSliceVal (fieldValue fl)" by (simp add: isSequenceField_def)
  have one: "e = fst (setWithProperType X (tag fl) t (nextCell t (fieldValue fl)) s True)
          \<and> elems (fieldValue fl1)
              = elems (fieldValue fl)
                @ [snd (setWithProperType X (tag fl) t (nextCell t (fieldValue fl)) s True)]
          \<and> Len (fieldValue fl1) = Len (fieldValue fl) + 1
          \<and> Cap (fieldValue fl1)
              = (if IsNil (fieldValue fl) then 4
                 else if Len (fieldValue fl) + 1 \<le> Cap (fieldValue fl) then Cap (fieldValue fl)
                 else Len (fieldValue fl) + Cap (fieldValue fl) div 2 + 1)"
    if st: "flag_set X fl n s = (e, fl1)"
  proof -
    note step = flag_set_sequence_step [OF assms st]
    from step(1) have "isSliceVal (fieldValue fl1)" by (simp add: isSequenceField_def)
    then have "Len (fieldValue fl1) = Len (fieldValue fl) + 1"
      using step(4) v by (simp add: Len_elems)
    with step(3,4,5) show ?thesis by simp
  qed
  have many: "Len (fieldValue fl2) = Len (fieldValue fl) + length cs
          \<and> take (Len (fieldValue fl)) (elems (fieldValue fl2)) = elems (fieldValue fl)
          \<and> (\<forall>i < length cs. \<exists>cell.
                setWithProperType X (tag fl) t cell (snd (cs ! i)) True
                  = (None, elems (fieldValue fl2) ! (Len (fieldValue fl) + i)))"
    if run: "setAll X fl cs = (None, fl2)"
  proof -
    from setAll_sequence [OF assms run] obtain els where
      sf2: "isSequenceField t fl2"
      and els: "elems (fieldValue fl2) = elems (fieldValue fl) @ els" "length els = length cs"
      and each: "\<forall>i<length cs. \<exists>cell.
          setWithProperType X (tag fl) t cell (snd (cs ! i)) True = (None, els ! i)"
      by blast
    from sf2 have v2: "isSliceVal (fieldValue fl2)" by (simp add: isSequenceField_def)
    have "Len (fieldValue fl2) = Len (fieldValue fl) + length cs"
      using els v v2 by (simp add: Len_elems)
    moreover have "take (Len (fieldValue fl)) (elems (fieldValue fl2)) = elems (fieldValue fl)"
      using els(1) v by (simp add: Len_elems)
    moreover have "elems (fieldValue fl2) ! (Len (fieldValue fl) + i) = els ! i" for i
      using els(1) v by (simp add: Len_elems)
    ultimately show ?thesis using each by simp
  qed
  from one many show ?thesis by blast
qed

lemma replicate_numeral_Cons: "replicate (numeral k) x = x # replicate (pred_numeral k) x"
  by (simp add: numeral_eq_Suc)

lemmas coerce_eval_more = coerce_eval exampleFlag_def flag_set_def MinInt8_def MaxInt8_def
  MakeSlice_def copyElems.simps replicate_numeral_Cons

theorem sequence_set_appends_witness:
  "isSequenceField TInt8 (exampleFlag (TSlice TInt8) VNilSlice exampleTag)
   \<and> fieldValue (snd (setAll exampleExtern (exampleFlag (TSlice TInt8) VNilSlice exampleTag)
        [(''-n'', ''1''), (''-n'', ''2''), (''-n'', ''3''), (''-n'', ''4''), (''-n'', ''5'')]))
       = VSlice [VInt 1, VInt 2, VInt 3, VInt 4, VInt 5] [VInt 0, VInt 0]
   \<and> Len (fieldValue (snd (setAll exampleExtern (exampleFlag (TSlice TInt8) VNilSlice exampleTag)
        [(''-n'', ''1''), (''-n'', ''2''), (''-n'', ''3''), (''-n'', ''4''), (''-n'', ''5'')]))) = 5
   \<and> isSequenceField TInt8 (exampleFlag (TSlice TInt8) (VSlice [VInt 1, VInt 2] []) exampleTag)
   \<and> Cap (fieldValue (snd (flag_set exampleExtern
        (exampleFlag (TSlice TInt8) (VSlice [VInt 1, VInt 2] []) exampleTag) ''-n'' ''3''))) = 4
   \<and> Len (fieldValue (snd (flag_set exampleExtern
        (exampleFlag (TSlice TInt8) (VSlice [VInt 1, VInt 2] []) exampleTag) ''-n'' ''3''))) = 3"
proof -
  let ?fl = "exampleFlag (TSlice TInt8) VNilSlice exampleTag"
  let ?cs = "[(''-n'', ''1''), (''-n'', ''2''), (''-n'', ''3''), (''-n'', ''4''), (''-n'', ''5'')]"
  let ?full = "exampleFlag (TSlice TInt8) (VSlice [VInt 1, VInt 2] []) exampleTag"
  have sf: "isSequenceField TInt8 ?fl" and sf2: "isSequenceField TInt8 ?full"
    by (simp_all add: isSequenceField_def exampleFlag_def exampleTag_def)
  have run: "fst (setAll exampleExtern ?fl ?cs) = None"
    and val: "fieldValue (snd (setAll exampleExtern ?fl ?cs))
       = VSlice [VInt 1, VInt 2, VInt 3, VInt 4, VInt 5] [VInt 0, VInt 0]"
    by (simp_all add: coerce_eval_more)
  from run have run': "setAll exampleExtern ?fl ?cs = (None, snd (setAll exampleExtern ?fl ?cs))"
    by (metis prod.collapse)
  have v0: "Len (fieldValue ?fl) = 0" by (simp add: exampleFlag_def)
  from sequence_set_appends [OF sf, where X = exampleExtern and cs = ?cs
      and ?fl2.0 = "snd (setAll exampleExtern ?fl ?cs)"] run'
  have "Len (fieldValue (snd (setAll exampleExtern ?fl ?cs))) = Len (fieldValue ?fl) + length ?cs"
    by blast
  then have len: "Len (fieldValue (snd (setAll exampleExtern ?fl ?cs))) = 5"
    using v0 by simp
  have st: "flag_set exampleExtern ?full ''-n'' ''3''
      = (fst (flag_set exampleExtern ?full ''-n'' ''3''), snd (flag_set exampleExtern ?full ''-n'' ''3''))"
    by simp
  have shape: "\<not> IsNil (fieldValue ?full)" "Len (fieldValue ?full) = 2" "Cap (fieldValue ?full) = 2"
    by (simp_all add: exampleFlag_def)
  from sequence_set_appends [OF sf2, where X = exampleExtern and n = "''-n''" and s = "''3''"
      and e = "fst (flag_set exampleExtern ?full ''-n'' ''3'')"
      and ?fl1.0 = "snd (flag_set exampleExtern ?full ''-n'' ''3'')"] st
  have "Len (fieldValue (snd (flag_set exampleExtern ?full ''-n'' ''3''))) = Len (fieldValue ?full) + 1
      \<and> Cap (fieldValue (snd (flag_set exampleExtern ?full ''-n'' ''3'')))
          = (if IsNil (fieldValue ?full) then 4
             else if Len (fieldValue ?full) + 1 \<le> Cap (fieldValue ?full) then Cap (fieldValue ?full)
             else Len (fieldValue ?full) + Cap (fieldValue ?full) div 2 + 1)"
    by blast
  then have grow: "Len (fieldValue (snd (flag_set exampleExtern ?full ''-n'' ''3''))) = 3
      \<and> Cap (fieldValue (snd (flag_set exampleExtern ?full ''-n'' ''3''))) = 4"
    using shape by simp
  from sf sf2 val len grow show ?thesis by simp
qed

subsection \<open>Maps (claim C2)\<close>

lemma stringsIndex_absent: "c \<notin> set s \<Longrightarrow> stringsIndex s c = - 1"
  by (induction s) auto

lemma stringsIndex_nonneg: "c \<in> set s \<Longrightarrow> 0 \<le> stringsIndex s c"
  by (induction s) auto

lemma stringsIndex_first:
  "c \<notin> set k \<Longrightarrow> stringsIndex (k @ c # v) c = int (length k)"
  by (induction k) auto

lemma splitKeyVal_empty: "splitKeyVal [] = Inl EmptyPair"
  by (simp add: splitKeyVal_def)

lemma splitKeyVal_first:
  "CHR ''='' \<notin> set ks \<Longrightarrow> splitKeyVal (ks @ CHR ''='' # vs) = Inr (ks, vs)"
proof -
  assume k: "CHR ''='' \<notin> set ks"
  have "nat (int (length ks) + 1) = Suc (length ks)" by simp
  then show ?thesis
    by (simp add: splitKeyVal_def stringsIndex_first [OF k] Let_def)
qed

lemma splitKeyVal_bare:
  "s \<noteq> [] \<Longrightarrow> CHR ''='' \<notin> set s \<Longrightarrow> splitKeyVal s = Inr (s, [])"
  by (simp add: splitKeyVal_def stringsIndex_absent)

lemma map_of_SetMapIndexList:
  "map_of (SetMapIndexList kvs k v) = (map_of kvs)(k \<mapsto> v)"
  by (induction kvs) auto

lemma length_SetMapIndexList:
  "length (SetMapIndexList kvs k v) = (if map_of kvs k = None then length kvs + 1 else length kvs)"
  by (induction kvs) auto

lemma setWithProperType_map:
  assumes tg: "parserCreator tg = None" and m: "isMapVal m"
  shows "setWithProperType X tg (TMap kt vt) m s False =
     (case splitKeyVal s of
        Inl e \<Rightarrow> (Some e, m)
      | Inr (ks, vs) \<Rightarrow>
          (case setWithProperType X tg kt (zero kt) ks True of
             (Some e, k) \<Rightarrow> (Some e, VMap (entries m))
           | (None, k) \<Rightarrow>
               (case setWithProperType X tg vt (zero vt) vs True of
                  (Some e, v) \<Rightarrow> (Some e, VMap (entries m))
                | (None, v) \<Rightarrow> (None, VMap (SetMapIndexList (entries m) k v)))))"
proof (cases m)
  case VNilMap
  show ?thesis
    unfolding VNilMap using tg
    by (subst setWithProperType.simps)
       (simp add: Let_def MakeMap_def split: sum.splits prod.splits option.splits)
next
  case (VMap kvs)
  show ?thesis
    unfolding VMap using tg
    by (subst setWithProperType.simps)
       (simp add: Let_def split: sum.splits prod.splits option.splits)
qed (use m in simp_all)

lemma setWithProperType_map_ok:
  assumes tg: "parserCreator tg = None" and m: "isMapVal m"
    and ok: "setWithProperType X tg (TMap kt vt) m s False = (None, m1)"
  shows "\<exists>ks vs k v. splitKeyVal s = Inr (ks, vs)
      \<and> setWithProperType X tg kt (zero kt) ks True = (None, k)
      \<and> setWithProperType X tg vt (zero vt) vs True = (None, v)
      \<and> m1 = VMap (SetMapIndexList (entries m) k v)"
  using ok unfolding setWithProperType_map [OF tg m]
  by (auto split: sum.splits prod.splits option.splits)

lemma MapIndex_entries: "isMapVal m \<Longrightarrow> MapIndex m k = map_of (entries m) k"
  by (cases m) simp_all

lemma Len_entries: "isMapVal m \<Longrightarrow> Len m = length (entries m)"
  by (cases m) simp_all

lemma flag_set_map:
  assumes "isMapField kt vt fl"
  shows "flag_set X fl n s =
     (fst (setWithProperType X (tag fl) (TMap kt vt) (fieldValue fl) s False),
      fl\<lparr>isSet := True, isAssigned := True, actualFlagName := n,
         fieldValue := snd (setWithProperType X (tag fl) (TMap kt vt) (fieldValue fl) s False)\<rparr>)"
  using assms by (simp add: isMapField_def flag_set_def split: prod.splits)

lemma flag_set_map_step:
  assumes mf: "isMapField kt vt fl" and st: "flag_set X fl n s = (None, fl1)"
  shows "isMapField kt vt fl1 \<and> tag fl1 = tag fl \<and>
     (\<exists>kstr vstr k v. splitKeyVal s = Inr (kstr, vstr)
        \<and> setWithProperType X (tag fl) kt (zero kt) kstr True = (None, k)
        \<and> setWithProperType X (tag fl) vt (zero vt) vstr True = (None, v)
        \<and> fieldValue fl1 = VMap (SetMapIndexList (entries (fieldValue fl)) k v))"
proof -
  from mf have tg: "parserCreator (tag fl) = None" and m: "isMapVal (fieldValue fl)"
    by (simp_all add: isMapField_def)
  let ?r = "setWithProperType X (tag fl) (TMap kt vt) (fieldValue fl) s False"
  from st have e: "fst ?r = None"
    and fl1: "fl1 = fl\<lparr>isSet := True, isAssigned := True, actualFlagName := n,
         fieldValue := snd ?r\<rparr>"
    by (simp_all add: flag_set_map [OF mf])
  from e have "?r = (None, snd ?r)" by (metis prod.collapse)
  from setWithProperType_map_ok [OF tg m this] obtain kstr vstr k v where
    ok: "splitKeyVal s = Inr (kstr, vstr)"
      "setWithProperType X (tag fl) kt (zero kt) kstr True = (None, k)"
      "setWithProperType X (tag fl) vt (zero vt) vstr True = (None, v)"
      "snd ?r = VMap (SetMapIndexList (entries (fieldValue fl)) k v)"
    by blast
  have "isMapField kt vt fl1" using mf ok(4) by (simp add: fl1 isMapField_def)
  moreover have "tag fl1 = tag fl" by (simp add: fl1)
  moreover have "fieldValue fl1 = VMap (SetMapIndexList (entries (fieldValue fl)) k v)"
    using ok(4) by (simp add: fl1)
  ultimately show ?thesis using ok(1-3) by blast
qed

text \<open>
  Claim C2.  \<open>splitKeyVal\<close> fails with \<open>EmptyPair\<close> on the empty string, splits at the
  first \<open>=\<close>, and gives a bare key the empty string as value.  On a map field \<open>set\<close> with
  the empty string fails with \<open>EmptyPair\<close> and leaves the map as it was; a \<open>set\<close> that
  succeeds has coerced the key and the value and stored the value under the key, every
  other key keeping its entry, so the size grows by one for a new key and stays for a
  key that is present.  After two successful \<open>set\<close> calls with the same key string the
  size is what it was after the first call and the key holds the value of the second.
\<close>

theorem map_set_inserts_or_overwrites:
  assumes "isMapField kt vt fl"
  shows "splitKeyVal [] = Inl EmptyPair
       \<and> (CHR ''='' \<notin> set ks \<longrightarrow> splitKeyVal (ks @ CHR ''='' # vs) = Inr (ks, vs))
       \<and> (s0 \<noteq> [] \<and> CHR ''='' \<notin> set s0 \<longrightarrow> splitKeyVal s0 = Inr (s0, []))
       \<and> fst (flag_set X fl n []) = Some EmptyPair
       \<and> fieldValue (snd (flag_set X fl n [])) = fieldValue fl
       \<and> (flag_set X fl n s = (None, fl1) \<longrightarrow>
            (\<exists>kstr vstr k v. splitKeyVal s = Inr (kstr, vstr)
               \<and> setWithProperType X (tag fl) kt (zero kt) kstr True = (None, k)
               \<and> setWithProperType X (tag fl) vt (zero vt) vstr True = (None, v)
               \<and> MapIndex (fieldValue fl1) k = Some v
               \<and> (\<forall>k'. k' \<noteq> k \<longrightarrow> MapIndex (fieldValue fl1) k' = MapIndex (fieldValue fl) k')
               \<and> Len (fieldValue fl1)
                   = (if MapIndex (fieldValue fl) k = None then Len (fieldValue fl) + 1
                      else Len (fieldValue fl))))
       \<and> (flag_set X fl n s = (None, fl1) \<and> flag_set X fl1 n' s' = (None, fl2)
          \<and> splitKeyVal s = Inr (key, vs1) \<and> splitKeyVal s' = Inr (key, vs2) \<longrightarrow>
            Len (fieldValue fl2) = Len (fieldValue fl1)
          \<and> (\<exists>k v. setWithProperType X (tag fl) kt (zero kt) key True = (None, k)
                \<and> setWithProperType X (tag fl) vt (zero vt) vs2 True = (None, v)
                \<and> MapIndex (fieldValue fl2) k = Some v))"
proof -
  from assms have tg: "parserCreator (tag fl) = None" and m: "isMapVal (fieldValue fl)"
    by (simp_all add: isMapField_def)
  have empty: "setWithProperType X (tag fl) (TMap kt vt) (fieldValue fl) [] False
      = (Some EmptyPair, fieldValue fl)"
    by (simp add: setWithProperType_map [OF tg m] splitKeyVal_empty)
  have e1: "fst (flag_set X fl n []) = Some EmptyPair"
    and e2: "fieldValue (snd (flag_set X fl n [])) = fieldValue fl"
    by (simp_all add: flag_set_map [OF assms] empty)
  have one: "\<exists>kstr vstr k v. splitKeyVal s = Inr (kstr, vstr)
               \<and> setWithProperType X (tag fl) kt (zero kt) kstr True = (None, k)
               \<and> setWithProperType X (tag fl) vt (zero vt) vstr True = (None, v)
               \<and> MapIndex (fieldValue fl1) k = Some v
               \<and> (\<forall>k'. k' \<noteq> k \<longrightarrow> MapIndex (fieldValue fl1) k' = MapIndex (fieldValue fl) k')
               \<and> Len (fieldValue fl1)
                   = (if MapIndex (fieldValue fl) k = None then Len (fieldValue fl) + 1
                      else Len (fieldValue fl))"
    if st: "flag_set X fl n s = (None, fl1)"
  proof -
    from flag_set_map_step [OF assms st] obtain kstr vstr k v where
      ok: "splitKeyVal s = Inr (kstr, vstr)"
        "setWithProperType X (tag fl) kt (zero kt) kstr True = (None, k)"
        "setWithProperType X (tag fl) vt (zero vt) vstr True = (None, v)"
        "fieldValue fl1 = VMap (SetMapIndexList (entries (fieldValue fl)) k v)"
      by blast
    have "MapIndex (fieldValue fl1) k = Some v"
      by (simp add: ok(4) map_of_SetMapIndexList)
    moreover have "\<forall>k'. k' \<noteq> k \<longrightarrow> MapIndex (fieldValue fl1) k' = MapIndex (fieldValue fl) k'"
      by (simp add: ok(4) map_of_SetMapIndexList MapIndex_entries [OF m])
    moreover have "Len (fieldValue fl1)
        = (if MapIndex (fieldValue fl) k = None then Len (fieldValue fl) + 1 else Len (fieldValue fl))"
      by (simp add: ok(4) length_SetMapIndexList MapIndex_entries [OF m] Len_entries [OF m])
    ultimately show ?thesis using ok(1-3) by blast
  qed
  have two: "Len (fieldValue fl2) = Len (fieldValue fl1)
          \<and> (\<exists>k v. setWithProperType X (tag fl) kt (zero kt) key True = (None, k)
                \<and> setWithProperType X (tag fl) vt (zero vt) vs2 True = (None, v)
                \<and> MapIndex (fieldValue fl2) k = Some v)"
    if st1: "flag_set X fl n s = (None, fl1)" and st2: "flag_set X fl1 n' s' = (None, fl2)"
      and k1: "splitKeyVal s = Inr (key, vs1)" and k2: "splitKeyVal s' = Inr (key, vs2)"
  proof -
    from flag_set_map_step [OF assms st1] k1 obtain k v1 where
      mf1: "isMapField kt vt fl1" and tg1: "tag fl1 = tag fl"
      and a: "setWithProperType X (tag fl) kt (zero kt) key True = (None, k)"
        "fieldValue fl1 = VMap (SetMapIndexList (entries (fieldValue fl)) k v1)"
      by auto
    from flag_set_map_step [OF mf1 st2] k2 tg1 a(1) obtain v2 where
      b: "setWithProperType X (tag fl) vt (zero vt) vs2 True = (None, v2)"
        "fieldValue fl2 = VMap (SetMapIndexList (entries (fieldValue fl1)) k v2)"
      by auto
    have "Len (fieldValue fl2) = Len (fieldValue fl1)"
      by (simp add: b(2) a(2) length_SetMapIndexList map_of_SetMapIndexList)
    moreover have "MapIndex (fieldValue fl2) k = Some v2"
      by (simp add: b(2) map_of_SetMapIndexList)
    ultimately show ?thesis using a(1) b(1) by blast
  qed
  from splitKeyVal_empty splitKeyVal_first [of ks vs] splitKeyVal_bare [of s0] e1 e2 one two
  show ?thesis by blast
qed

theorem map_set_inserts_or_overwrites_witness:
  "isMapField TString TString (exampleFlag (TMap TString TString) VNilMap exampleTag)
   \<and> splitKeyVal ''a=1=2'' = Inr (''a'', ''1=2'')
   \<and> splitKeyVal ''key'' = Inr (''key'', '''')
   \<and> fst (flag_set exampleExtern (exampleFlag (TMap TString TString) VNilMap exampleTag) ''-m'' '''')
       = Some EmptyPair
   \<and> MapIndex (fieldValue (snd (flag_set exampleExtern
         (exampleFlag (TMap TString TString) VNilMap exampleTag) ''-m'' ''a=1''))) (VString ''a'')
       = Some (VString ''1'')
   \<and> Len (fieldValue (snd (flag_set exampleExtern
         (exampleFlag (TMap TString TString) VNilMap exampleTag) ''-m'' ''a=1''))) = 1
   \<and> Len (fieldValue (snd (flag_set exampleExtern
         (snd (flag_set exampleExtern
            (exampleFlag (TMap TString TString) VNilMap exampleTag) ''-m'' ''a=1'')) ''-m'' ''a=3''))) = 1
   \<and> MapIndex (fieldValue (snd (flag_set exampleExtern
         (snd (flag_set exampleExtern
            (exampleFlag (TMap TString TString) VNilMap exampleTag) ''-m'' ''a=1'')) ''-m'' ''a=3'')))
         (VString ''a'')
       = Some (VString ''3'')"
proof -
  let ?fl = "exampleFlag (TMap TString TString) VNilMap exampleTag"
  let ?fl1 = "snd (flag_set exampleExtern ?fl ''-m'' ''a=1'')"
  let ?fl2 = "snd (flag_set exampleExtern ?fl1 ''-m'' ''a=3'')"
  have mf: "isMapField TString TString ?fl"
    by (simp add: isMapField_def exampleFlag_def exampleTag_def)
  have tg: "parserCreator (tag ?fl) = None" by (simp add: exampleFlag_def exampleTag_def)
  have sp1: "splitKeyVal ''a=1'' = Inr (''a'', ''1'')" and sp2: "splitKeyVal ''a=3'' = Inr (''a'', ''3'')"
    by (simp_all add: splitKeyVal_def)
  have ok1: "fst (flag_set exampleExtern ?fl ''-m'' ''a=1'') = None"
    and ok2: "fst (flag_set exampleExtern ?fl1 ''-m'' ''a=3'') = None"
    by (simp_all add: coerce_eval_more splitKeyVal_def MakeMap_def)
  from ok1 have st1: "flag_set exampleExtern ?fl ''-m'' ''a=1'' = (None, ?fl1)"
    by (metis prod.collapse)
  from ok2 have st2: "flag_set exampleExtern ?fl1 ''-m'' ''a=3'' = (None, ?fl2)"
    by (metis prod.collapse)
  have k1: "CHR ''='' \<notin> set ''a''" and k2: "''key'' \<noteq> [] \<and> CHR ''='' \<notin> set ''key''"
    by simp_all
  have nil: "MapIndex (fieldValue ?fl) k = None" "Len (fieldValue ?fl) = 0" for k
    by (simp_all add: exampleFlag_def)
  note inst = map_set_inserts_or_overwrites
    [OF mf, where X = exampleExtern and n = "''-m''" and n' = "''-m''"
       and ks = "''a''" and vs = "''1=2''" and ?s0.0 = "''key''"
       and s = "''a=1''" and s' = "''a=3''" and ?fl1.0 = ?fl1 and ?fl2.0 = ?fl2
       and key = "''a''" and ?vs1.0 = "''1''" and ?vs2.0 = "''3''"]
  from inst k1 have 1: "splitKeyVal (''a'' @ CHR ''='' # ''1=2'') = Inr (''a'', ''1=2'')" by blast
  from inst k2 have 2: "splitKeyVal ''key'' = Inr (''key'', '''')" by blast
  from inst have 3: "fst (flag_set exampleExtern ?fl ''-m'' '''') = Some EmptyPair" by blast
  from inst st1 obtain kstr vstr k v where
    a: "splitKeyVal ''a=1'' = Inr (kstr, vstr)"
      "setWithProperType exampleExtern (tag ?fl) TString (zero TString) kstr True = (None, k)"
      "setWithProperType exampleExtern (tag ?fl) TString (zero TString) vstr True = (None, v)"
      "MapIndex (fieldValue ?fl1) k = Some v"
      "Len (fieldValue ?fl1)
         = (if MapIndex (fieldValue ?fl) k = None then Len (fieldValue ?fl) + 1 else Len (fieldValue ?fl))"
    by blast
  from a(1) sp1 have "kstr = ''a''" "vstr = ''1''" by simp_all
  with a(2,3) have "k = VString ''a''" "v = VString ''1''"
    by (simp_all add: setWithProperType_string [OF tg])
  with a(4,5) nil have 4: "MapIndex (fieldValue ?fl1) (VString ''a'') = Some (VString ''1'')"
    and 5: "Len (fieldValue ?fl1) = 1"
    by simp_all
  from inst st1 st2 sp1 sp2 obtain k' v' where
    b: "Len (fieldValue ?fl2) = Len (fieldValue ?fl1)"
      "setWithProperType exampleExtern (tag ?fl) TString (zero TString) ''a'' True = (None, k')"
      "setWithProperType exampleExtern (tag ?fl) TString (zero TString) ''3'' True = (None, v')"
      "MapIndex (fieldValue ?fl2) k' = Some v'"
    by blast
  from b(2,3) have "k' = VString ''a''" "v' = VString ''3''"
    by (simp_all add: setWithProperType_string [OF tg])
  with b(1,4) 5 have 6: "Len (fieldValue ?fl2) = 1"
    and 7: "MapIndex (fieldValue ?fl2) (VString ''a'') = Some (VString ''3'')"
    by simp_all
  from mf 1 2 3 4 5 6 7 show ?thesis by simp
qed

subsection \<open>The expression resolver (claim C5)\<close>

lemma isWordByte_not_escape: "isWordByte b \<Longrightarrow> b \<noteq> escapeByte"
  by (auto simp: isWordByte_def escapeByte_def byte_def)

lemma writeEnv_name:
  "envName \<noteq> [] \<Longrightarrow> writeEnv g n envName ex = Inr (ex @ substitute g n envName)"
  by (simp add: writeEnv_def substitute_def Let_def)

lemma loop_plain:
  "escapeByte \<notin> set pre \<Longrightarrow>
   parseExpressionLoop g n (pre @ rest) False ev ex = parseExpressionLoop g n rest False ev (ex @ pre)"
  by (induction pre arbitrary: ex) auto

lemma loop_name:
  "list_all isWordByte nm \<Longrightarrow> rest \<noteq> [] \<Longrightarrow>
   parseExpressionLoop g n (nm @ rest) True ev ex = parseExpressionLoop g n rest True (ev @ nm) ex"
  by (induction nm arbitrary: ev) (simp_all add: isWordByte_not_escape)

lemma loop_name_end:
  "list_all isWordByte nm \<Longrightarrow> nm \<noteq> [] \<Longrightarrow>
   parseExpressionLoop g n nm True ev ex = Inr (ex @ substitute g n (ev @ nm))"
proof (induction nm arbitrary: ev)
  case Nil
  then show ?case by simp
next
  case (Cons b nm)
  then have b: "isWordByte b" "b \<noteq> escapeByte" by (simp_all add: isWordByte_not_escape)
  show ?case
  proof (cases nm)
    case Nil
    with b show ?thesis by (simp add: writeEnv_name)
  next
    case (Cons c cs)
    with Cons.IH [of "ev @ [b]"] Cons.prems b show ?thesis by simp
  qed
qed

lemma reference_at_end:
  assumes "escapeByte \<notin> set pre" and "nm \<noteq> []" and "list_all isWordByte nm"
  shows "parseExpression g (pre @ escapeByte # nm) n = Inr (pre @ substitute g n nm)"
  using assms loop_name_end [of nm g n "[]" pre]
  by (simp add: parseExpression_def loop_plain)

lemma reference_in_text:
  assumes "escapeByte \<notin> set pre" and "nm \<noteq> []" and "list_all isWordByte nm"
    and "\<not> isWordByte c" and "c \<noteq> escapeByte" and "escapeByte \<notin> set post"
  shows "parseExpression g (pre @ escapeByte # nm @ c # post) n
           = Inr (pre @ substitute g n nm @ c # post)"
proof -
  have "parseExpression g (pre @ escapeByte # nm @ c # post) n
      = parseExpressionLoop g n (nm @ c # post) True [] pre"
    using assms(1) by (simp add: parseExpression_def loop_plain)
  also have "\<dots> = parseExpressionLoop g n (c # post) True nm pre"
    using assms(3) by (simp add: loop_name)
  also have "\<dots> = parseExpressionLoop g n post False [] (pre @ substitute g n nm @ [c])"
    using assms(2,4,5) by (simp add: writeEnv_name)
  also have "\<dots> = Inr (pre @ substitute g n nm @ c # post)"
    using assms(6) loop_plain [of post g n "[]" "[]" "pre @ substitute g n nm @ [c]"] by simp
  finally show ?thesis .
qed

lemma trailing_escape:
  "escapeByte \<notin> set pre \<Longrightarrow> parseExpression g (pre @ [escapeByte]) n = Inl MalformedExpression"
  by (simp add: parseExpression_def loop_plain)

lemma adjacent_references:
  assumes "nm1 \<noteq> []" and "list_all isWordByte nm1" and "nm2 \<noteq> []" and "list_all isWordByte nm2"
  shows "parseExpression g (escapeByte # nm1 @ escapeByte # nm2) n = Inr (substitute g n nm2)"
proof -
  have "parseExpression g (escapeByte # nm1 @ escapeByte # nm2) n
      = parseExpressionLoop g n (nm1 @ escapeByte # nm2) True [] []"
    by (simp add: parseExpression_def)
  also have "\<dots> = parseExpressionLoop g n (escapeByte # nm2) True nm1 []"
    using assms(2) by (simp add: loop_name)
  also have "\<dots> = parseExpressionLoop g n nm2 True [] []"
    using assms(1,3) by simp
  also have "\<dots> = Inr (substitute g n nm2)"
    using assms(3,4) by (simp add: loop_name_end)
  finally show ?thesis .
qed

text \<open>
  Claim C5 at a failing input.  With \<open>A = x\<close> and \<open>B = y\<close> in the environment the
  expression \<open>$A$B\<close> has two variable references, and the claim has it resolve to \<open>xy\<close>;
  \<open>parseExpression\<close> returns \<open>y\<close>.  The escape byte that ends the name \<open>A\<close> resets
  \<open>envvar\<close> without \<open>writeEnv\<close>, unlike every other byte that ends a name.  A single
  reference, before the end or before a byte that is neither a word byte nor the
  escape byte, is substituted as the claim says, and a lone trailing escape byte is
  \<open>MalformedExpression\<close> (lemmas \<open>reference_at_end\<close>, \<open>reference_in_text\<close>,
  \<open>trailing_escape\<close>).
\<close>

theorem adjacent_references_drop_first:
  "exampleEnv ''A'' = ''x'' \<and> exampleEnv ''B'' = ''y''
   \<and> parseExpression exampleEnv ''$A$B'' False = Inr ''y''
   \<and> parseExpression exampleEnv ''$A-$B'' False = Inr ''x-y''"
  by (simp add: parseExpression_def writeEnv_def isWordByte_def escapeByte_def byte_def
      exampleEnv_def)

end
